theory Spec2Isabelle
  imports Complex_Main
begin

section \<open>WenPlayer front end: playback state mirror and frame presentation\<close>

text \<open>
  A shallow embedding of \<^verbatim>\<open>src/main.ts\<close>. The module variables, the elements of the
  document that the handlers touch and the calls made to the native engine are the fields
  of one record, \<open>page\<close>; every handler is a function from the page before to the page
  after. What a handler receives from outside (the event, the answer of the engine, the
  answer of the file dialog) is an argument of the function, so that a rejected promise is
  the value \<open>Inl e\<close> and a resolved one \<open>Inr v\<close>.

  Conventions.
  \<^item> A JavaScript \<open>number\<close> is a \<open>real\<close>; \<open>NaN\<close> and the infinities are outside the
    model. Where the code changes a number by one operation (\<open>currentTime += 1\<close>,
    \<open>parseInt(value) / 100\<close>) the operation is written as it stands. The handler of the
    progress bar multiplies by 100 and divides by 100 again, which is not the identity on
    doubles: there every operation is rounded to binary64 by \<open>fl\<close>. Pixel sizes and byte
    counts are natural numbers.
  \<^item> A \<open>string\<close> is the UTF-8 text, byte by byte. \<open>String.prototype.toLowerCase\<close> is the
    platform's: it follows Unicode and is a parameter \<open>toLowerCase\<close> of the functions that
    call it.
  \<^item> An element looked up with \<open>document.getElementById\<close> is a field of type \<open>'a option\<close>;
    \<open>None\<close> is the \<open>null\<close> the lookup returns when the document has no such element.
    The value stored is the property the code assigns (\<open>style.display\<close>, \<open>textContent\<close>, ...).
    No handler adds or removes an element.
  \<^item> A handler runs from its event to its end in one step: the engine's answer is given with
    the event. Two handlers overlapping at an \<open>await\<close> are not modelled.
  \<^item> Of the console only \<open>console.error\<close> is recorded (field \<open>console\<close>), as a constructor
    per message; the \<open>console.log\<close> traces are left out. Labels whose text is Chinese in the
    source are written by an English word.
\<close>

subsection \<open>Errors, engine commands, console reports\<close>

datatype error =
    EngineError         \<comment> \<open>\<open>invoke\<close> rejected\<close>
  | DialogError         \<comment> \<open>the file dialog rejected\<close>
  | WindowError         \<comment> \<open>\<open>toggleMaximize\<close> rejected\<close>
  | InvalidStateError   \<comment> \<open>DOMException of \<open>new ImageData\<close>\<close>
  | IndexSizeError      \<comment> \<open>DOMException of \<open>new ImageData\<close>\<close>

datatype command =
    LoadFile string
  | TogglePlayback
  | SeekTo real
  | SetVolume real
  | PreviousTrack
  | NextTrack

datatype report =
    CanvasNotFound      \<comment> \<open>\<open>renderVideoFrame\<close>, line 33\<close>
  | LoadFileFailed      \<comment> \<open>\<open>openFileDialog\<close>, line 109\<close>
  | OpenFileFailed      \<comment> \<open>\<open>openFileDialog\<close>, line 119\<close>
  | ToggleFailed        \<comment> \<open>\<open>togglePlayPause\<close>, line 254\<close>
  | SeekFailed          \<comment> \<open>progress bar click, line 327\<close>
  | SetVolumeFailed     \<comment> \<open>volume handlers, lines 356 and 395\<close>
  | PreviousFailed
  | NextFailed

subsection \<open>Data\<close>

record VideoFrameData =
  width :: nat
  height :: nat
  data :: "int list"
  timestamp :: real

text \<open>
  The canvas element \<open>video-canvas\<close>. \<open>bitmap\<close> is its backing store, as RGBA bytes in row
  order. Assigning \<open>width\<close> or \<open>height\<close> of a canvas reallocates and clears the backing
  store; \<open>resizes\<close> counts how often \<open>renderVideoFrame\<close> did so. \<open>has2d\<close> says whether
  \<open>getContext('2d')\<close> yields a context. The module variables \<open>videoCanvas\<close> and
  \<open>videoContext\<close> hold references to this element and to its context, or \<open>null\<close>: they are
  the two flags \<open>held\<close> and \<open>ctx_held\<close>, which live in the element they refer to, so that both
  are \<open>null\<close> when the document has no canvas.
\<close>

record canvas =
  canvas_width :: nat
  canvas_height :: nat
  clientWidth :: nat
  clientHeight :: nat
  display :: string
  has2d :: bool
  bitmap :: "nat list"
  resizes :: nat
  held :: bool
  ctx_held :: bool

record image_data =
  img_width :: nat
  img_height :: nat
  img_data :: "nat list"

record page =
  \<comment> \<open>module variables\<close>
  isPlaying :: bool
  currentTime :: real
  duration :: real
  volume :: real
  lastVolume :: "real option"            \<comment> \<open>\<open>window.lastVolume\<close>, \<open>None\<close> while undefined\<close>
  \<comment> \<open>document\<close>
  video_canvas :: "canvas option"
  audio_icon :: "string option"          \<comment> \<open>\<open>style.display\<close>\<close>
  video_icon :: "string option"
  player_controls :: "string option"
  media_player :: "bool option"          \<comment> \<open>class \<open>active\<close>\<close>
  body_player_mode :: bool               \<comment> \<open>class \<open>player-mode\<close> of the body\<close>
  file_info :: "bool option"             \<comment> \<open>class \<open>hidden\<close>\<close>
  file_name :: "string option"           \<comment> \<open>the file name in \<open>textContent\<close>\<close>
  play_pause_btn :: "string option"      \<comment> \<open>\<open>aria-label\<close>\<close>
  play_icon :: "string option"
  pause_icon :: "string option"
  progress_bar :: bool                   \<comment> \<open>the element exists\<close>
  progress_fill :: "real option"         \<comment> \<open>\<open>style.width\<close>, in percent\<close>
  current_time :: "string option"        \<comment> \<open>\<open>textContent\<close>\<close>
  duration_el :: "string option"
  volume_slider :: "real option"         \<comment> \<open>the number last assigned to \<open>value\<close>\<close>
  volume_btn :: bool
  volume_high_icon :: "string option"
  volume_low_icon :: "string option"
  volume_mute_icon :: "string option"
  \<comment> \<open>effects seen from outside\<close>
  invoked :: "command list"              \<comment> \<open>calls of \<open>invoke\<close>, in order\<close>
  console :: "report list"               \<comment> \<open>calls of \<open>console.error\<close>, in order\<close>
  alerts :: "report list"                \<comment> \<open>calls of \<open>alert\<close>, in order\<close>

subsection \<open>FrameRenderer: \<open>renderVideoFrame\<close>\<close>

text \<open>
  \<open>new Uint8ClampedArray(numbers)\<close> keeps the length and clamps every number into
  \<open>0..255\<close>.
\<close>

definition Uint8ClampedArray :: "int list \<Rightarrow> nat list" where
  "Uint8ClampedArray xs = map (\<lambda>x. nat (max 0 (min 255 x))) xs"

text \<open>
  \<open>new ImageData(data, sw, sh)\<close> is the browser's, not this repository's. It is modelled
  from the HTML Standard: the byte length must be a nonzero multiple of four
  (\<open>InvalidStateError\<close>), the number of pixels a multiple of \<open>sw\<close>, and the number of rows
  equal to \<open>sh\<close> (\<open>IndexSizeError\<close>).
\<close>

definition ImageData :: "nat list \<Rightarrow> nat \<Rightarrow> nat \<Rightarrow> error + image_data" where
  "ImageData d sw sh =
     (if length d = 0 \<or> length d mod 4 \<noteq> 0 then Inl InvalidStateError
      else if sw = 0 \<or> (length d div 4) mod sw \<noteq> 0 then Inl IndexSizeError
      else if (length d div 4) div sw \<noteq> sh then Inl IndexSizeError
      else Inr \<lparr>img_width = sw, img_height = sh, img_data = d\<rparr>)"

text \<open>
  \<open>putImageData(imageData, 0, 0)\<close>. \<open>renderVideoFrame\<close> calls it with an image of the size
  of the canvas, so the image replaces the whole backing store.
\<close>

definition putImageData :: "image_data \<Rightarrow> canvas \<Rightarrow> canvas" where
  "putImageData img c = c\<lparr>bitmap := img_data img\<rparr>"

text \<open>Lines 25 to 30: the lazy lookup of the canvas and of its context.\<close>

definition resolve_surface :: "page \<Rightarrow> page" where
  "resolve_surface s =
     (case video_canvas s of
        None \<Rightarrow> s
      | Some c \<Rightarrow>
          if \<not> held c \<or> \<not> ctx_held c
          then s\<lparr>video_canvas := Some (c\<lparr>held := True, ctx_held := has2d c\<rparr>)\<rparr>
          else s)"

text \<open>Line 32: both module variables are set.\<close>

definition surface_resolved :: "page \<Rightarrow> bool" where
  "surface_resolved s =
     (case video_canvas s of None \<Rightarrow> False | Some c \<Rightarrow> held c \<and> ctx_held c)"

text \<open>Lines 38 to 41: the size of the canvas follows the frame, only when it differs.\<close>

definition fit_canvas :: "VideoFrameData \<Rightarrow> canvas \<Rightarrow> canvas" where
  "fit_canvas frameData c =
     (if canvas_width c \<noteq> width frameData \<or> canvas_height c \<noteq> height frameData
      then c\<lparr>canvas_width := width frameData, canvas_height := height frameData,
             bitmap := replicate (4 * width frameData * height frameData) 0,
             resizes := Suc (resizes c)\<rparr>
      else c)"

text \<open>
  The result is the exception that reaches the caller, if any, and the page left behind:
  the canvas has been resized already when \<open>new ImageData\<close> throws.
\<close>

definition renderVideoFrame :: "VideoFrameData \<Rightarrow> page \<Rightarrow> error option \<times> page" where
  "renderVideoFrame frameData s =
     (let s1 = resolve_surface s in
      case video_canvas s1 of
        None \<Rightarrow> (None, s1\<lparr>console := console s1 @ [CanvasNotFound]\<rparr>)
      | Some c \<Rightarrow>
          if \<not> held c \<or> \<not> ctx_held c
          then (None, s1\<lparr>console := console s1 @ [CanvasNotFound]\<rparr>)
          else
            let c1 = fit_canvas frameData c in
            (case ImageData (Uint8ClampedArray (data frameData))
                    (width frameData) (height frameData) of
               Inl e \<Rightarrow> (Some e, s1\<lparr>video_canvas := Some c1\<rparr>)
             | Inr imageData \<Rightarrow>
                 (None, s1\<lparr>video_canvas := Some (putImageData imageData c1)\<rparr>)))"

text \<open>
  The listener of the \<open>video-frame\<close> event (line 502) calls \<open>renderVideoFrame\<close> once per
  frame, in the order of arrival. An exception ends that call only; the next frame is
  presented on the page the failed call left.
\<close>

fun present_all :: "VideoFrameData list \<Rightarrow> page \<Rightarrow> page" where
  "present_all [] s = s"
| "present_all (f # fs) s = present_all fs (snd (renderVideoFrame f s))"

definition resize_count :: "page \<Rightarrow> nat" where
  "resize_count s = (case video_canvas s of None \<Rightarrow> 0 | Some c \<Rightarrow> resizes c)"

definition surface_size :: "page \<Rightarrow> (nat \<times> nat) option" where
  "surface_size s = map_option (\<lambda>c. (canvas_width c, canvas_height c)) (video_canvas s)"

subsection \<open>MediaTypeRouter: \<open>showMediaIcon\<close>\<close>

text \<open>
  \<open>s.split(sep).pop()\<close>: the text after the last separator, the whole text when it has
  none.
\<close>

definition last_segment :: "(char \<Rightarrow> bool) \<Rightarrow> string \<Rightarrow> string" where
  "last_segment sep s = rev (takeWhile (\<lambda>c. \<not> sep c) (rev s))"

text \<open>
  What \<open>toLowerCase\<close> does to a text of ASCII characters: the letters \<open>A\<close> to \<open>Z\<close> become
  \<open>a\<close> to \<open>z\<close>, every other character stays. On other texts the platform's function
  follows Unicode (the Kelvin sign becomes \<open>k\<close>); \<open>lowers_ascii\<close> is all that is assumed
  of it. In the examples, which are ASCII, \<open>toLowerCase_ascii\<close> stands for it.
\<close>

definition lower_char :: "char \<Rightarrow> char" where
  "lower_char c =
     (case map_of (zip ''ABCDEFGHIJKLMNOPQRSTUVWXYZ'' ''abcdefghijklmnopqrstuvwxyz'') c of
        Some l \<Rightarrow> l
      | None \<Rightarrow> c)"

definition toLowerCase_ascii :: "string \<Rightarrow> string" where
  "toLowerCase_ascii s = map lower_char s"

definition ascii_text :: "string \<Rightarrow> bool" where
  "ascii_text s = list_all (\<lambda>c. of_char c < (128::nat)) s"

definition lowers_ascii :: "(string \<Rightarrow> string) \<Rightarrow> bool" where
  "lowers_ascii toLowerCase = (\<forall>s. ascii_text s \<longrightarrow> toLowerCase s = toLowerCase_ascii s)"

definition audioExtensions :: "string list" where
  "audioExtensions = [''mp3'', ''flac'', ''wav'', ''aac'', ''ogg'', ''m4a'', ''wma'']"

definition videoExtensions :: "string list" where
  "videoExtensions =
     [''mp4'', ''mkv'', ''avi'', ''mov'', ''wmv'', ''flv'', ''webm'', ''m4v'']"

text \<open>Line 170; the \<open>|| ''\<close> of the source maps the empty text to itself.\<close>

definition extension_of :: "(string \<Rightarrow> string) \<Rightarrow> string \<Rightarrow> string" where
  "extension_of toLowerCase filePath =
     toLowerCase (last_segment (\<lambda>c. c = CHR ''.'') filePath)"

text \<open>\<open>if (el) el.style.display = v\<close>.\<close>

definition set_display :: "string \<Rightarrow> string option \<Rightarrow> string option" where
  "set_display v el = map_option (\<lambda>_. v) el"

definition showMediaIcon :: "(string \<Rightarrow> string) \<Rightarrow> string \<Rightarrow> page \<Rightarrow> page" where
  "showMediaIcon toLowerCase filePath s =
     (let extension = extension_of toLowerCase filePath;
          s1 = s\<lparr>audio_icon := set_display ''none'' (audio_icon s),
                 video_icon := set_display ''none'' (video_icon s),
                 video_canvas := map_option (\<lambda>c. c\<lparr>display := ''none''\<rparr>) (video_canvas s),
                 player_controls := set_display ''none'' (player_controls s)\<rparr>;
          s2 =
            (if extension \<in> set audioExtensions
             then s1\<lparr>audio_icon := set_display ''block'' (audio_icon s1),
                     player_controls := set_display ''flex'' (player_controls s1)\<rparr>
             else if extension \<in> set videoExtensions
             then s1\<lparr>video_icon := set_display ''block'' (video_icon s1),
                     video_canvas :=
                       map_option
                         (\<lambda>c. c\<lparr>display := ''block'',
                                canvas_width := clientWidth c,
                                canvas_height := clientHeight c,
                                bitmap := replicate (4 * clientWidth c * clientHeight c) 0\<rparr>)
                         (video_canvas s1),
                     player_controls := set_display ''flex'' (player_controls s1)\<rparr>
             else s1\<lparr>audio_icon := set_display ''block'' (audio_icon s1),
                     player_controls := set_display ''flex'' (player_controls s1)\<rparr>)
      in s2\<lparr>media_player := map_option (\<lambda>_. True) (media_player s2),
             body_player_mode := True\<rparr>)"

subsection \<open>Opening a file: \<open>openFileDialog\<close>\<close>

definition console_error :: "report \<Rightarrow> page \<Rightarrow> page" where
  "console_error r s = s\<lparr>console := console s @ [r]\<rparr>"

text \<open>The outer \<open>catch\<close>, lines 118 to 121.\<close>

definition open_failed :: "page \<Rightarrow> page" where
  "open_failed s = (console_error OpenFileFailed s)\<lparr>alerts := alerts s @ [OpenFileFailed]\<rparr>"

text \<open>
  \<open>selected\<close> is the answer of the dialog (\<open>None\<close> when the user cancels), \<open>maximized\<close>
  that of \<open>toggleMaximize\<close>, \<open>loaded\<close> that of the engine command \<open>load_file\<close>. The empty
  path is falsy and is treated as a cancellation.
\<close>

definition openFileDialog ::
  "(string \<Rightarrow> string) \<Rightarrow> error + string option \<Rightarrow> error + unit \<Rightarrow> error + unit \<Rightarrow>
     page \<Rightarrow> page" where
  "openFileDialog toLowerCase selected maximized loaded s =
     (case selected of
        Inl e \<Rightarrow> open_failed s
      | Inr None \<Rightarrow> s
      | Inr (Some path) \<Rightarrow>
          if path = [] then s
          else
            let seg = last_segment (\<lambda>c. c = CHR ''/'' \<or> c = CHR 0x5C) path;
                fileName = (if seg = [] then path else seg);
                s1 = (if file_info s \<noteq> None \<and> file_name s \<noteq> None
                      then s\<lparr>file_name := Some fileName, file_info := Some False\<rparr>
                      else s)
            in (case maximized of
                  Inl e \<Rightarrow> open_failed s1
                | Inr _ \<Rightarrow>
                    let s2 = s1\<lparr>invoked := invoked s1 @ [LoadFile path]\<rparr>;
                        s3 = (case loaded of
                                Inl e \<Rightarrow> console_error LoadFileFailed s2
                              | Inr _ \<Rightarrow> s2)
                    in showMediaIcon toLowerCase path s3))"

subsection \<open>Numbers of the progress bar\<close>

text \<open>
  Rounding to the nearest binary64 number, ties to even. \<open>ilog2 n\<close> is the binary
  logarithm of a positive whole number rounded down, \<open>clog2 n\<close> rounded up; \<open>exponent x\<close>
  is the integer part of the binary logarithm of a positive \<open>x\<close>, \<open>ulp x\<close> the distance between the doubles
  around \<open>x\<close> (that of the subnormal numbers below \<open>2 powi - 1022\<close>). A result beyond the
  largest double, which JavaScript gives as an infinity, is outside the model.
\<close>

function ilog2 :: "int \<Rightarrow> nat" where
  "ilog2 n = (if n < 2 then 0 else Suc (ilog2 (n div 2)))"
  by pat_completeness auto
termination
  by (relation "measure nat") auto

function clog2 :: "int \<Rightarrow> nat" where
  "clog2 n = (if n < 2 then 0 else Suc (clog2 ((n + 1) div 2)))"
  by pat_completeness auto
termination
  by (relation "measure nat") auto

definition exponent :: "real \<Rightarrow> int" where
  "exponent x =
     (if 1 \<le> x then int (ilog2 \<lfloor>x\<rfloor>) else - int (clog2 \<lceil>1 / x\<rceil>))"

definition ulp :: "real \<Rightarrow> real" where
  "ulp x = 2 powi (max (exponent x) (- 1022) - 52)"

definition round_even :: "real \<Rightarrow> int" where
  "round_even r =
     (let f = \<lfloor>r\<rfloor> in
      if r - of_int f < 1 / 2 then f
      else if 1 / 2 < r - of_int f then f + 1
      else if even f then f else f + 1)"

definition fl :: "real \<Rightarrow> real" where
  "fl x =
     (if x = 0 then 0
      else if 0 < x then ulp x * of_int (round_even (x / ulp x))
      else - (ulp (- x) * of_int (round_even (- x / ulp (- x)))))"

definition js_sub :: "real \<Rightarrow> real \<Rightarrow> real" where
  "js_sub a b = fl (a - b)"

definition js_mul :: "real \<Rightarrow> real \<Rightarrow> real" where
  "js_mul a b = fl (a * b)"

definition js_div :: "real \<Rightarrow> real \<Rightarrow> real" where
  "js_div a b = fl (a / b)"

text \<open>The finite doubles: 53 binary digits, scaled by a power of two from \<open>- 1074\<close> on.\<close>

definition is_double :: "real \<Rightarrow> bool" where
  "is_double d = (\<exists>m k. \<bar>m\<bar> < 2 ^ 53 \<and> - 1074 \<le> k \<and> d = of_int m * 2 powi k)"

subsection \<open>PlaybackStateController\<close>

text \<open>Lines 262 to 278. The label is \<open>pause\<close> while playing, \<open>play\<close> otherwise.\<close>

definition updatePlayPauseUI :: "page \<Rightarrow> page" where
  "updatePlayPauseUI s =
     (if play_pause_btn s \<noteq> None \<and> play_icon s \<noteq> None \<and> pause_icon s \<noteq> None
      then
        (if isPlaying s
         then s\<lparr>play_icon := Some ''none'', pause_icon := Some ''block'',
                 play_pause_btn := Some ''pause''\<rparr>
         else s\<lparr>play_icon := Some ''block'', pause_icon := Some ''none'',
                 play_pause_btn := Some ''play''\<rparr>)
      else s)"

text \<open>
  Lines 230 to 259. The \<open>try\<close> branch repeats the statements of \<open>updatePlayPauseUI\<close>
  (with \<open>console.log\<close> traces), so the model calls it there as well.
\<close>

definition togglePlayPause :: "error + bool \<Rightarrow> page \<Rightarrow> page" where
  "togglePlayPause response s =
     (let s0 = s\<lparr>invoked := invoked s @ [TogglePlayback]\<rparr> in
      case response of
        Inr playing \<Rightarrow> updatePlayPauseUI (s0\<lparr>isPlaying := playing\<rparr>)
      | Inl e \<Rightarrow>
          let s1 = console_error ToggleFailed s0 in
          updatePlayPauseUI (s1\<lparr>isPlaying := \<not> isPlaying s1\<rparr>))"

definition updateProgress :: "real \<Rightarrow> page \<Rightarrow> page" where
  "updateProgress percent s = s\<lparr>progress_fill := map_option (\<lambda>_. percent) (progress_fill s)\<rparr>"

text \<open>
  \<open>formatTime\<close>, lines 293 to 297. \<open>a % b\<close> of JavaScript takes the sign of \<open>a\<close>.
\<close>

definition js_rem :: "real \<Rightarrow> real \<Rightarrow> real" where
  "js_rem a b = a - b * of_int (if 0 \<le> a / b then \<lfloor>a / b\<rfloor> else \<lceil>a / b\<rceil>)"

fun digits :: "nat \<Rightarrow> string" where
  "digits n =
     (if n < 10 then [char_of (48 + n)] else digits (n div 10) @ [char_of (48 + n mod 10)])"

definition toString :: "int \<Rightarrow> string" where
  "toString i = (if i < 0 then CHR ''-'' # digits (nat (- i)) else digits (nat i))"

definition padStart :: "nat \<Rightarrow> char \<Rightarrow> string \<Rightarrow> string" where
  "padStart n c str = replicate (n - length str) c @ str"

definition formatTime :: "real \<Rightarrow> string" where
  "formatTime seconds =
     (let mins = \<lfloor>seconds / 60\<rfloor>; secs = \<lfloor>js_rem seconds 60\<rfloor>
      in padStart 2 CHR ''0'' (toString mins) @ '':'' @ padStart 2 CHR ''0'' (toString secs))"

definition updateTimeDisplay :: "real \<Rightarrow> real \<Rightarrow> page \<Rightarrow> page" where
  "updateTimeDisplay current total_time s =
     s\<lparr>current_time := map_option (\<lambda>_. formatTime current) (current_time s),
       duration_el := map_option (\<lambda>_. formatTime total_time) (duration_el s)\<rparr>"

text \<open>
  The click listener of the progress bar, lines 312 to 332; \<open>setupProgressBar\<close> installs it
  only when the bar exists. \<open>clientX\<close> is the abscissa of the click, \<open>rect_left\<close> and
  \<open>rect_width\<close> are those of \<open>getBoundingClientRect()\<close>, \<open>response\<close> is the answer of
  \<open>seek_to\<close>. A bar of width zero, where JavaScript divides by zero, is outside the model.
\<close>

definition progressBar_click :: "real \<Rightarrow> real \<Rightarrow> real \<Rightarrow> error + real \<Rightarrow> page \<Rightarrow> page" where
  "progressBar_click clientX rect_left rect_width response s =
     (if \<not> progress_bar s then s
      else
        let x = js_sub clientX rect_left;
            percent = js_mul (js_div x rect_width) 100;
            s1 = updateProgress percent s;
            newTime = js_mul (js_div percent 100) (duration s1);
            s2 = s1\<lparr>invoked := invoked s1 @ [SeekTo newTime]\<rparr>;
            s3 = (case response of
                    Inr seekedTime \<Rightarrow> s2\<lparr>currentTime := seekedTime\<rparr>
                  | Inl e \<Rightarrow> (console_error SeekFailed s2)\<lparr>currentTime := newTime\<rparr>)
        in updateTimeDisplay (currentTime s3) (duration s3) s3)"

text \<open>
  \<open>setupVolumeControl\<close> installs its two listeners only when the slider, the button and
  the three icons exist (line 343).
\<close>

definition volume_controls :: "page \<Rightarrow> bool" where
  "volume_controls s =
     (volume_slider s \<noteq> None \<and> volume_btn s \<and> volume_high_icon s \<noteq> None \<and>
      volume_low_icon s \<noteq> None \<and> volume_mute_icon s \<noteq> None)"

text \<open>Lines 361 to 373, and again 401 to 413.\<close>

definition update_volume_icon :: "page \<Rightarrow> page" where
  "update_volume_icon s =
     (if volume s = 0
      then s\<lparr>volume_high_icon := Some ''none'', volume_low_icon := Some ''none'',
              volume_mute_icon := Some ''block''\<rparr>
      else if volume s < 0.5
      then s\<lparr>volume_high_icon := Some ''none'', volume_low_icon := Some ''block'',
              volume_mute_icon := Some ''none''\<rparr>
      else s\<lparr>volume_high_icon := Some ''block'', volume_low_icon := Some ''none'',
              volume_mute_icon := Some ''none''\<rparr>)"

text \<open>
  The \<open>input\<close> listener of the slider, lines 346 to 374. \<open>v\<close> is \<open>parseInt(target.value)\<close>,
  \<open>response\<close> the answer of \<open>set_volume\<close>.
\<close>

definition volumeSlider_input :: "int \<Rightarrow> error + real \<Rightarrow> page \<Rightarrow> page" where
  "volumeSlider_input v response s =
     (if \<not> volume_controls s then s
      else
        let newVolume = real_of_int v / 100;
            s1 = s\<lparr>invoked := invoked s @ [SetVolume newVolume]\<rparr>;
            s2 = (case response of
                    Inr actualVolume \<Rightarrow> s1\<lparr>volume := actualVolume\<rparr>
                  | Inl e \<Rightarrow> (console_error SetVolumeFailed s1)\<lparr>volume := newVolume\<rparr>)
        in update_volume_icon s2)"

text \<open>
  The \<open>click\<close> listener of the volume button, lines 377 to 414.
  \<open>lastVolume || 0.8\<close> is \<open>0.8\<close> when \<open>lastVolume\<close> is undefined or zero. The browser's
  own rounding of a value assigned to a range input is not modelled.
\<close>

definition volumeBtn_click :: "error + real \<Rightarrow> page \<Rightarrow> page" where
  "volumeBtn_click response s =
     (if \<not> volume_controls s then s
      else
        let s0 = (if volume s > 0 then s\<lparr>lastVolume := Some (volume s)\<rparr> else s);
            newVolume =
              (if volume s > 0 then 0
               else (case lastVolume s of
                       None \<Rightarrow> 0.8
                     | Some l \<Rightarrow> if l = 0 then 0.8 else l));
            s1 = s0\<lparr>invoked := invoked s0 @ [SetVolume newVolume]\<rparr>;
            s2 = (case response of
                    Inr actualVolume \<Rightarrow> s1\<lparr>volume := actualVolume\<rparr>
                  | Inl e \<Rightarrow> (console_error SetVolumeFailed s1)\<lparr>volume := newVolume\<rparr>)
        in update_volume_icon (s2\<lparr>volume_slider := Some (volume s2 * 100)\<rparr>))"

text \<open>
  The callback of \<open>setInterval\<close>, lines 429 to 436, which the specification calls
  \<open>tick\<close>.
\<close>

definition tick :: "page \<Rightarrow> page" where
  "tick s =
     (if isPlaying s \<and> currentTime s < duration s
      then
        let s1 = s\<lparr>currentTime := currentTime s + 1\<rparr>;
            percent = (currentTime s1 / duration s1) * 100
        in updateTimeDisplay (currentTime s1) (duration s1) (updateProgress percent s1)
      else s)"


text \<open>Lines 418 to 426; the listeners and the timer it installs are the functions above.\<close>

definition initPlayerControls :: "page \<Rightarrow> page" where
  "initPlayerControls s =
     (let s1 = s\<lparr>duration := 180\<rparr>
      in updateProgress 0 (updateTimeDisplay (currentTime s1) (duration s1) s1))"

text \<open>The listeners of the buttons \<open>prev-btn\<close> and \<open>next-btn\<close>, lines 481 to 496.\<close>

definition prevBtn_click :: "error + unit \<Rightarrow> page \<Rightarrow> page" where
  "prevBtn_click response s =
     (let s1 = s\<lparr>invoked := invoked s @ [PreviousTrack]\<rparr>
      in case response of Inl e \<Rightarrow> console_error PreviousFailed s1 | Inr _ \<Rightarrow> s1)"

definition nextBtn_click :: "error + unit \<Rightarrow> page \<Rightarrow> page" where
  "nextBtn_click response s =
     (let s1 = s\<lparr>invoked := invoked s @ [NextTrack]\<rparr>
      in case response of Inl e \<Rightarrow> console_error NextFailed s1 | Inr _ \<Rightarrow> s1)"

subsection \<open>Sequences of events\<close>

datatype event =
    Tick
  | PlayPauseClick "error + bool"
  | ProgressClick real real real "error + real"
  | VolumeInput int "error + real"
  | VolumeClick "error + real"
  | PrevClick "error + unit"
  | NextClick "error + unit"
  | OpenFile "error + string option" "error + unit" "error + unit"
  | VideoFrame VideoFrameData

fun handle :: "(string \<Rightarrow> string) \<Rightarrow> event \<Rightarrow> page \<Rightarrow> page" where
  "handle toLowerCase Tick s = tick s"
| "handle toLowerCase (PlayPauseClick r) s = togglePlayPause r s"
| "handle toLowerCase (ProgressClick clientX rect_left rect_width r) s =
     progressBar_click clientX rect_left rect_width r s"
| "handle toLowerCase (VolumeInput v r) s = volumeSlider_input v r s"
| "handle toLowerCase (VolumeClick r) s = volumeBtn_click r s"
| "handle toLowerCase (PrevClick r) s = prevBtn_click r s"
| "handle toLowerCase (NextClick r) s = nextBtn_click r s"
| "handle toLowerCase (OpenFile selected maximized loaded) s =
     openFileDialog toLowerCase selected maximized loaded s"
| "handle toLowerCase (VideoFrame f) s = snd (renderVideoFrame f s)"

fun run :: "(string \<Rightarrow> string) \<Rightarrow> event list \<Rightarrow> page \<Rightarrow> page" where
  "run toLowerCase [] s = s"
| "run toLowerCase (e # es) s = run toLowerCase es (handle toLowerCase e s)"

subsection \<open>Three documents\<close>

text \<open>
  The module as it is loaded (lines 12, 13 and 224 to 227) on a document none of whose
  elements is attached yet, on one that has them all, with a canvas laid out at
  \<open>800 \<times> 450\<close>, and on one whose canvas gives no 2d context.
\<close>

definition bare_page :: page where
  "bare_page =
     \<lparr>isPlaying = False, currentTime = 0, duration = 0, volume = 0.8, lastVolume = None,
      video_canvas = None, audio_icon = None, video_icon = None, player_controls = None,
      media_player = None, body_player_mode = False, file_info = None, file_name = None,
      play_pause_btn = None, play_icon = None, pause_icon = None, progress_bar = False,
      progress_fill = None, current_time = None, duration_el = None, volume_slider = None,
      volume_btn = False, volume_high_icon = None, volume_low_icon = None,
      volume_mute_icon = None, invoked = [], console = [], alerts = []\<rparr>"

definition blank_canvas :: canvas where
  "blank_canvas =
     \<lparr>canvas_width = 300, canvas_height = 150, clientWidth = 800, clientHeight = 450,
      display = ''none'', has2d = True, bitmap = [], resizes = 0, held = False,
      ctx_held = False\<rparr>"

definition full_page :: page where
  "full_page =
     bare_page
       \<lparr>video_canvas := Some blank_canvas, audio_icon := Some ''none'',
        video_icon := Some ''none'', player_controls := Some ''none'',
        media_player := Some False, file_info := Some True, file_name := Some [],
        play_pause_btn := Some ''play'', play_icon := Some ''block'',
        pause_icon := Some ''none'', progress_bar := True, progress_fill := Some 0,
        current_time := Some ''00:00'', duration_el := Some ''00:00'',
        volume_slider := Some 80, volume_btn := True, volume_high_icon := Some ''block'',
        volume_low_icon := Some ''none'', volume_mute_icon := Some ''none''\<rparr>"

definition contextless_page :: page where
  "contextless_page = full_page\<lparr>video_canvas := Some (blank_canvas\<lparr>has2d := False\<rparr>)\<rparr>"

text \<open>A frame of one red pixel, and one whose byte sequence is a byte short.\<close>

definition pixel_frame :: VideoFrameData where
  "pixel_frame = \<lparr>width = 1, height = 1, data = [255, 0, 0, 255], timestamp = 0\<rparr>"

definition short_frame :: VideoFrameData where
  "short_frame = \<lparr>width = 1, height = 1, data = [255, 0, 0], timestamp = 0\<rparr>"

subsection \<open>Properties of pages and of events\<close>

text \<open>
  The volume invariant of the specification, extended to the level remembered for the
  volume button, from which a later click restores the volume.
\<close>

definition volume_in_range :: "page \<Rightarrow> bool" where
  "volume_in_range s =
     (0 \<le> volume s \<and> volume s \<le> 1 \<and>
      (case lastVolume s of None \<Rightarrow> True | Some l \<Rightarrow> 0 \<le> l \<and> l \<le> 1))"

text \<open>
  An answer of \<open>set_volume\<close> that keeps to the engine's documented range, and the events
  whose answers do (a slider sends a whole number from 0 to 100).
\<close>

definition level_ok :: "error + real \<Rightarrow> bool" where
  "level_ok response = (case response of Inl e \<Rightarrow> True | Inr a \<Rightarrow> 0 \<le> a \<and> a \<le> 1)"

fun volume_event_ok :: "event \<Rightarrow> bool" where
  "volume_event_ok (VolumeInput v r) = (0 \<le> v \<and> v \<le> 100 \<and> level_ok r)"
| "volume_event_ok (VolumeClick r) = level_ok r"
| "volume_event_ok _ = True"

text \<open>The position invariant of the specification.\<close>

definition position_bounded :: "page \<Rightarrow> bool" where
  "position_bounded s = (0 < duration s \<longrightarrow> currentTime s \<le> duration s)"

text \<open>
  The time the click handler asks the engine for, as the code computes it.
\<close>

definition seek_time :: "real \<Rightarrow> real \<Rightarrow> real \<Rightarrow> real \<Rightarrow> real" where
  "seek_time clientX rect_left rect_width d =
     js_mul (js_div (js_mul (js_div (js_sub clientX rect_left) rect_width) 100) 100) d"

text \<open>
  The events under which the position invariant is kept: a tick that, when it advances,
  finds a second left; a click on the progress bar answered by the engine with a position
  not after the end, or not answered and asking for a time not after the end.
  \<open>run_within_bounds\<close> asks it of every event of a sequence, in the page the event finds.
  \<open>whole x\<close> says that \<open>x\<close> is a whole number.
\<close>

definition whole :: "real \<Rightarrow> bool" where
  "whole x = (of_int \<lfloor>x\<rfloor> = x)"

fun within_bounds :: "event \<Rightarrow> page \<Rightarrow> bool" where
  "within_bounds Tick s =
     (isPlaying s \<and> currentTime s < duration s \<longrightarrow> currentTime s + 1 \<le> duration s)"
| "within_bounds (ProgressClick clientX rect_left rect_width r) s =
     (progress_bar s \<and> 0 < duration s \<longrightarrow>
        (case r of
           Inl e \<Rightarrow> seek_time clientX rect_left rect_width (duration s) \<le> duration s
         | Inr a \<Rightarrow> a \<le> duration s))"
| "within_bounds _ s = True"

fun run_within_bounds :: "(string \<Rightarrow> string) \<Rightarrow> event list \<Rightarrow> page \<Rightarrow> bool" where
  "run_within_bounds toLowerCase [] s = True"
| "run_within_bounds toLowerCase (e # es) s =
     (within_bounds e s \<and> run_within_bounds toLowerCase es (handle toLowerCase e s))"

text \<open>
  The two presentations of the specification, each relating the page before to the page
  after: an element that exists gets the display written here, one that does not exist
  stays absent.
\<close>

definition audio_presentation :: "page \<Rightarrow> page \<Rightarrow> bool" where
  "audio_presentation s s' =
     (audio_icon s' = set_display ''block'' (audio_icon s) \<and>
      video_icon s' = set_display ''none'' (video_icon s) \<and>
      map_option display (video_canvas s') = map_option (\<lambda>_. ''none'') (video_canvas s) \<and>
      player_controls s' = set_display ''flex'' (player_controls s))"

definition video_presentation :: "page \<Rightarrow> page \<Rightarrow> bool" where
  "video_presentation s s' =
     (audio_icon s' = set_display ''none'' (audio_icon s) \<and>
      video_icon s' = set_display ''block'' (video_icon s) \<and>
      map_option display (video_canvas s') = map_option (\<lambda>_. ''block'') (video_canvas s) \<and>
      player_controls s' = set_display ''flex'' (player_controls s))"

text \<open>A session of nine events, with two failures of the engine.\<close>

definition busy_session :: "event list" where
  "busy_session =
     [PlayPauseClick (Inr True), Tick, ProgressClick 60 10 200 (Inl EngineError),
      VolumeInput 30 (Inr 0.3), Tick, VolumeClick (Inl EngineError),
      ProgressClick 110 10 200 (Inr 90), VolumeClick (Inr 0.3), Tick]"

section \<open>Frame presentation\<close>

subsection \<open>The steps of \<open>renderVideoFrame\<close>\<close>

lemma ImageData_length:
  assumes "ImageData d sw sh = Inr img"
  shows "length d = sw * sh * 4"
proof -
  from assms have m4: "length d mod 4 = 0" and msw: "(length d div 4) mod sw = 0"
    and h: "(length d div 4) div sw = sh"
    by (auto simp: ImageData_def split: if_splits)
  from m4 have "length d = 4 * (length d div 4)" by presburger
  moreover from msw have "length d div 4 = sw * ((length d div 4) div sw)"
    by (metis mult_div_mod_eq add.right_neutral)
  ultimately show ?thesis using h by simp
qed

lemma fit_canvas_size [simp]:
  "canvas_width (fit_canvas f c) = width f" "canvas_height (fit_canvas f c) = height f"
  by (simp_all add: fit_canvas_def)

lemma fit_canvas_resizes:
  "resizes (fit_canvas f c) =
     (if (canvas_width c, canvas_height c) \<noteq> (width f, height f) then Suc (resizes c) else resizes c)"
  by (auto simp add: fit_canvas_def)

lemma fit_canvas_flags [simp]:
  "held (fit_canvas f c) = held c" "ctx_held (fit_canvas f c) = ctx_held c"
  "has2d (fit_canvas f c) = has2d c"
  by (simp_all add: fit_canvas_def)

lemma render_unresolved:
  assumes "\<not> surface_resolved (resolve_surface s)"
  shows "renderVideoFrame f s =
           (None, (resolve_surface s)\<lparr>console := console (resolve_surface s) @ [CanvasNotFound]\<rparr>)"
  using assms
  by (auto simp: renderVideoFrame_def surface_resolved_def Let_def split: option.splits)

lemma render_resolved:
  assumes "surface_resolved (resolve_surface s)"
  obtains c where "video_canvas (resolve_surface s) = Some c" "held c" "ctx_held c"
    "renderVideoFrame f s =
       (case ImageData (Uint8ClampedArray (data f)) (width f) (height f) of
          Inl e \<Rightarrow> (Some e, (resolve_surface s)\<lparr>video_canvas := Some (fit_canvas f c)\<rparr>)
        | Inr img \<Rightarrow> (None, (resolve_surface s)\<lparr>video_canvas := Some (putImageData img (fit_canvas f c))\<rparr>))"
  using assms
  by (auto simp: renderVideoFrame_def surface_resolved_def Let_def split: option.splits)

lemma resolve_surface_size [simp]: "surface_size (resolve_surface s) = surface_size s"
  by (auto simp: resolve_surface_def surface_size_def split: option.splits)

lemma resolve_surface_count [simp]: "resize_count (resolve_surface s) = resize_count s"
  by (auto simp: resolve_surface_def resize_count_def split: option.splits)

lemma resolve_surface_console [simp]: "console (resolve_surface s) = console s"
  by (auto simp: resolve_surface_def split: option.splits)

lemma resolve_surface_idem [simp]: "resolve_surface (resolve_surface s) = resolve_surface s"
  by (auto simp: resolve_surface_def split: option.splits)

lemma render_size:
  "surface_size (snd (renderVideoFrame f s)) =
     (if surface_resolved (resolve_surface s) then Some (width f, height f) else surface_size s)"
proof (cases "surface_resolved (resolve_surface s)")
  case True
  then obtain c where c: "video_canvas (resolve_surface s) = Some c"
    and r: "renderVideoFrame f s =
       (case ImageData (Uint8ClampedArray (data f)) (width f) (height f) of
          Inl e \<Rightarrow> (Some e, (resolve_surface s)\<lparr>video_canvas := Some (fit_canvas f c)\<rparr>)
        | Inr img \<Rightarrow> (None, (resolve_surface s)\<lparr>video_canvas := Some (putImageData img (fit_canvas f c))\<rparr>))"
    by (rule render_resolved)
  show ?thesis using True
    by (simp add: r surface_size_def putImageData_def split: sum.splits)
next
  case False
  have "surface_size (snd (renderVideoFrame f s)) = surface_size (resolve_surface s)"
    by (simp add: render_unresolved [OF False] surface_size_def)
  then show ?thesis using False by simp
qed

lemma render_count:
  "resize_count (snd (renderVideoFrame f s)) =
     (if surface_resolved (resolve_surface s) \<and> surface_size s \<noteq> Some (width f, height f)
      then Suc (resize_count s) else resize_count s)"
proof (cases "surface_resolved (resolve_surface s)")
  case True
  then obtain c where c: "video_canvas (resolve_surface s) = Some c"
    and r: "renderVideoFrame f s =
       (case ImageData (Uint8ClampedArray (data f)) (width f) (height f) of
          Inl e \<Rightarrow> (Some e, (resolve_surface s)\<lparr>video_canvas := Some (fit_canvas f c)\<rparr>)
        | Inr img \<Rightarrow> (None, (resolve_surface s)\<lparr>video_canvas := Some (putImageData img (fit_canvas f c))\<rparr>))"
    by (rule render_resolved)
  have sz: "surface_size s = Some (canvas_width c, canvas_height c)"
    using c resolve_surface_size [of s] by (simp add: surface_size_def)
  have rc: "resize_count s = resizes c"
    using c resolve_surface_count [of s] by (simp add: resize_count_def)
  have "resize_count (snd (renderVideoFrame f s)) = resizes (fit_canvas f c)"
    by (simp add: r resize_count_def putImageData_def split: sum.splits)
  then show ?thesis using True
    by (simp add: sz rc fit_canvas_resizes)
next
  case False
  have "resize_count (snd (renderVideoFrame f s)) = resize_count (resolve_surface s)"
    by (simp add: render_unresolved [OF False] resize_count_def)
  then show ?thesis using False by simp
qed

lemma render_keeps_resolution:
  "surface_resolved (resolve_surface (snd (renderVideoFrame f s))) = surface_resolved (resolve_surface s)"
proof (cases "surface_resolved (resolve_surface s)")
  case True
  then obtain c where c: "video_canvas (resolve_surface s) = Some c" and h: "held c" "ctx_held c"
    and r: "renderVideoFrame f s =
       (case ImageData (Uint8ClampedArray (data f)) (width f) (height f) of
          Inl e \<Rightarrow> (Some e, (resolve_surface s)\<lparr>video_canvas := Some (fit_canvas f c)\<rparr>)
        | Inr img \<Rightarrow> (None, (resolve_surface s)\<lparr>video_canvas := Some (putImageData img (fit_canvas f c))\<rparr>))"
    by (rule render_resolved)
  show ?thesis using True h
    by (simp add: r surface_resolved_def resolve_surface_def putImageData_def split: sum.splits)
next
  case False
  have "resolve_surface (snd (renderVideoFrame f s)) =
          (resolve_surface s)\<lparr>console := console s @ [CanvasNotFound]\<rparr>"
    by (auto simp add: render_unresolved [OF False] resolve_surface_def split: option.splits)
  then show ?thesis using False by (simp add: surface_resolved_def)
qed

lemma present_all_same_size:
  assumes "\<forall>g\<in>set fs. width g = w \<and> height g = h"
    and "surface_resolved (resolve_surface s) \<longrightarrow> surface_size s = Some (w, h)"
  shows "resize_count (present_all fs s) = resize_count s"
  using assms
proof (induction fs arbitrary: s)
  case Nil
  show ?case by simp
next
  case (Cons g fs)
  define s' where "s' = snd (renderVideoFrame g s)"
  have g: "width g = w" "height g = h" using Cons.prems(1) by simp_all
  have rest: "\<forall>g\<in>set fs. width g = w \<and> height g = h" using Cons.prems(1) by simp
  have 1: "resize_count s' = resize_count s"
    unfolding s'_def render_count g using Cons.prems(2) by simp
  have 2: "surface_resolved (resolve_surface s') \<longrightarrow> surface_size s' = Some (w, h)"
    unfolding s'_def render_size render_keeps_resolution g by simp
  have "resize_count (present_all fs s') = resize_count s'"
    using rest 2 by (rule Cons.IH)
  then show ?case using 1 by (simp add: s'_def)
qed

subsection \<open>Resizing\<close>

text \<open>
  Claim C7. A call of \<open>renderVideoFrame\<close> assigns the size of the backing store exactly
  when the surface is resolved and its size differs from that of the frame, and then the
  size is that of the frame. So, of consecutive frames of one size, only the first can
  resize: the count after all of them is the count after the first, at most one more than
  before. This holds whether or not a frame's bytes are well formed.
\<close>

theorem present_resize_economy:
  "resize_count (snd (renderVideoFrame f s)) =
     (if surface_resolved (resolve_surface s) \<and> surface_size s \<noteq> Some (width f, height f)
      then Suc (resize_count s) else resize_count s) \<and>
   surface_size (snd (renderVideoFrame f s)) =
     (if surface_resolved (resolve_surface s) then Some (width f, height f) else surface_size s) \<and>
   ((\<forall>g\<in>set fs. width g = width f \<and> height g = height f) \<longrightarrow>
      resize_count (present_all (f # fs) s) = resize_count (snd (renderVideoFrame f s)) \<and>
      resize_count (present_all (f # fs) s) \<le> Suc (resize_count s))"
proof -
  let ?s = "snd (renderVideoFrame f s)"
  have "resize_count (present_all fs ?s) = resize_count ?s"
    if "\<forall>g\<in>set fs. width g = width f \<and> height g = height f"
    using that by (rule present_all_same_size) (simp add: render_size render_keeps_resolution)
  then show ?thesis
    by (simp add: render_count render_size)
qed


theorem present_resize_economy_witness:
  "width short_frame = width pixel_frame \<and> height short_frame = height pixel_frame \<and>
   resize_count full_page = 0 \<and>
   resize_count (present_all [pixel_frame, pixel_frame, short_frame] full_page) = 1"
proof -
  have h: "width short_frame = width pixel_frame \<and> height short_frame = height pixel_frame"
    by (simp add: pixel_frame_def short_frame_def)
  have "resize_count (present_all [pixel_frame, pixel_frame, short_frame] full_page) =
          resize_count (snd (renderVideoFrame pixel_frame full_page))"
    using present_resize_economy [of pixel_frame full_page "[pixel_frame, short_frame]"] h
    by simp
  moreover have "resize_count (snd (renderVideoFrame pixel_frame full_page)) = 1"
    by code_simp
  moreover have "resize_count full_page = 0"
    by code_simp
  ultimately show ?thesis using h by simp
qed

subsection \<open>The surface that cannot be resolved\<close>

lemma resolve_unresolved:
  assumes "\<not> surface_resolved (resolve_surface s)"
  shows "resolve_surface s =
           s\<lparr>video_canvas :=
               map_option (\<lambda>c. c\<lparr>held := True, ctx_held := False\<rparr>) (video_canvas s)\<rparr>"
proof (cases "video_canvas s")
  case None
  then show ?thesis by (simp add: resolve_surface_def)
next
  case (Some c)
  then show ?thesis using assms
    by (auto simp: resolve_surface_def surface_resolved_def split: if_splits)
qed

lemma present_all_unresolved:
  assumes "\<not> surface_resolved (resolve_surface s)"
  shows "present_all (f # fs) s =
           s\<lparr>video_canvas :=
               map_option (\<lambda>c. c\<lparr>held := True, ctx_held := False\<rparr>) (video_canvas s),
             console := console s @ replicate (Suc (length fs)) CanvasNotFound\<rparr>"
  using assms
proof (induction fs arbitrary: f s)
  case Nil
  then show ?case
    by (simp add: render_unresolved resolve_unresolved)
next
  case (Cons g fs)
  define s' where "s' = snd (renderVideoFrame f s)"
  have u: "\<not> surface_resolved (resolve_surface s')"
    unfolding s'_def render_keeps_resolution by (rule Cons.prems)
  have s': "s' = s\<lparr>video_canvas :=
                     map_option (\<lambda>c. c\<lparr>held := True, ctx_held := False\<rparr>) (video_canvas s),
                   console := console s @ [CanvasNotFound]\<rparr>"
    unfolding s'_def by (simp add: render_unresolved [OF Cons.prems] resolve_unresolved [OF Cons.prems])
  have "present_all (f # g # fs) s = present_all (g # fs) s'"
    by (simp add: s'_def)
  also have "\<dots> = s'\<lparr>video_canvas :=
               map_option (\<lambda>c. c\<lparr>held := True, ctx_held := False\<rparr>) (video_canvas s'),
             console := console s' @ replicate (Suc (length fs)) CanvasNotFound\<rparr>"
    using u by (rule Cons.IH)
  also have "\<dots> = s\<lparr>video_canvas :=
               map_option (\<lambda>c. c\<lparr>held := True, ctx_held := False\<rparr>) (video_canvas s),
             console := console s @ replicate (Suc (length (g # fs))) CanvasNotFound\<rparr>"
    by (simp add: s' option.map_comp comp_def replicate_append_same)
  finally show ?case .
qed

text \<open>
  Claim C8, as amended. While the canvas cannot be resolved (the document has none, or it
  gives no 2d context) a call of \<open>renderVideoFrame\<close> raises nothing and leaves the page as
  it was but for two things: the console has one report more, and a canvas that exists
  is now held by \<open>videoCanvas\<close>, with \<open>videoContext\<close> null. Without a canvas only the
  console changes. The report is made by every such call: after \<open>n\<close> calls the page
  differs from the first one by these two things, with \<open>n\<close> reports.
\<close>

theorem unresolved_surface_reported_per_call:
  "\<not> surface_resolved (resolve_surface s) \<longrightarrow>
     renderVideoFrame f s =
       (None,
        s\<lparr>video_canvas :=
            map_option (\<lambda>c. c\<lparr>held := True, ctx_held := False\<rparr>) (video_canvas s),
          console := console s @ [CanvasNotFound]\<rparr>) \<and>
     (video_canvas s = None \<longrightarrow>
        renderVideoFrame f s = (None, s\<lparr>console := console s @ [CanvasNotFound]\<rparr>)) \<and>
     present_all (f # fs) s =
       s\<lparr>video_canvas :=
           map_option (\<lambda>c. c\<lparr>held := True, ctx_held := False\<rparr>) (video_canvas s),
         console := console s @ replicate (Suc (length fs)) CanvasNotFound\<rparr>"
proof
  assume u: "\<not> surface_resolved (resolve_surface s)"
  have r: "renderVideoFrame f s =
       (None,
        s\<lparr>video_canvas :=
            map_option (\<lambda>c. c\<lparr>held := True, ctx_held := False\<rparr>) (video_canvas s),
          console := console s @ [CanvasNotFound]\<rparr>)"
    by (simp add: render_unresolved [OF u] resolve_unresolved [OF u])
  have n: "renderVideoFrame f s = (None, s\<lparr>console := console s @ [CanvasNotFound]\<rparr>)"
    if "video_canvas s = None"
    using that by (simp add: renderVideoFrame_def resolve_surface_def)
  show "renderVideoFrame f s =
       (None,
        s\<lparr>video_canvas :=
            map_option (\<lambda>c. c\<lparr>held := True, ctx_held := False\<rparr>) (video_canvas s),
          console := console s @ [CanvasNotFound]\<rparr>) \<and>
     (video_canvas s = None \<longrightarrow>
        renderVideoFrame f s = (None, s\<lparr>console := console s @ [CanvasNotFound]\<rparr>)) \<and>
     present_all (f # fs) s =
       s\<lparr>video_canvas :=
           map_option (\<lambda>c. c\<lparr>held := True, ctx_held := False\<rparr>) (video_canvas s),
         console := console s @ replicate (Suc (length fs)) CanvasNotFound\<rparr>"
    using r n present_all_unresolved [OF u] by blast
qed

theorem unresolved_surface_reported_per_call_witness:
  "\<not> surface_resolved (resolve_surface bare_page) \<and>
   video_canvas bare_page = None \<and>
   renderVideoFrame pixel_frame bare_page = (None, bare_page\<lparr>console := [CanvasNotFound]\<rparr>) \<and>
   console (present_all [pixel_frame, pixel_frame, pixel_frame] bare_page) =
     [CanvasNotFound, CanvasNotFound, CanvasNotFound] \<and>
   \<not> surface_resolved (resolve_surface contextless_page) \<and>
   renderVideoFrame pixel_frame contextless_page =
     (None,
      contextless_page
        \<lparr>video_canvas := Some (blank_canvas\<lparr>has2d := False, held := True, ctx_held := False\<rparr>),
         console := [CanvasNotFound]\<rparr>) \<and>
   present_all [pixel_frame, short_frame] contextless_page =
     contextless_page
       \<lparr>video_canvas := Some (blank_canvas\<lparr>has2d := False, held := True, ctx_held := False\<rparr>),
        console := [CanvasNotFound, CanvasNotFound]\<rparr>"
proof -
  have u: "\<not> surface_resolved (resolve_surface bare_page)"
    and v: "\<not> surface_resolved (resolve_surface contextless_page)"
    by code_simp+
  have b: "video_canvas bare_page = None" "console bare_page = []"
    by (simp_all add: bare_page_def)
  have c: "video_canvas contextless_page = Some (blank_canvas\<lparr>has2d := False\<rparr>)"
    "console contextless_page = []"
    by (simp_all add: contextless_page_def full_page_def bare_page_def)
  have 1: "renderVideoFrame pixel_frame bare_page =
             (None, bare_page\<lparr>console := [CanvasNotFound]\<rparr>)"
    using unresolved_surface_reported_per_call [of bare_page pixel_frame "[]"] u b
    by simp
  have 2: "console (present_all [pixel_frame, pixel_frame, pixel_frame] bare_page) =
             [CanvasNotFound, CanvasNotFound, CanvasNotFound]"
    using unresolved_surface_reported_per_call
            [of bare_page pixel_frame "[pixel_frame, pixel_frame]"] u b
    by (simp del: present_all.simps)
  have 3: "renderVideoFrame pixel_frame contextless_page =
     (None,
      contextless_page
        \<lparr>video_canvas := Some (blank_canvas\<lparr>has2d := False, held := True, ctx_held := False\<rparr>),
         console := [CanvasNotFound]\<rparr>)"
    using unresolved_surface_reported_per_call [of contextless_page pixel_frame "[]"] v c
    by (simp del: present_all.simps)
  have 4: "present_all [pixel_frame, short_frame] contextless_page =
     contextless_page
       \<lparr>video_canvas := Some (blank_canvas\<lparr>has2d := False, held := True, ctx_held := False\<rparr>),
        console := [CanvasNotFound, CanvasNotFound]\<rparr>"
    using unresolved_surface_reported_per_call [of contextless_page pixel_frame "[short_frame]"] v c
    by (simp del: present_all.simps)
  show ?thesis using u v b(1) 1 2 3 4 by blast
qed

text \<open>
  The claim as written asks for one report over all the calls. Two frames on a document
  without canvas leave two, and so do two frames on a canvas without 2d context.
\<close>

theorem report_once_counterexample:
  "\<not> surface_resolved (resolve_surface bare_page) \<and>
   \<not> surface_resolved (resolve_surface (snd (renderVideoFrame pixel_frame bare_page))) \<and>
   count_list (console bare_page) CanvasNotFound = 0 \<and>
   count_list (console (present_all [pixel_frame, pixel_frame] bare_page)) CanvasNotFound = 2 \<and>
   count_list (console (present_all [pixel_frame, pixel_frame] contextless_page))
     CanvasNotFound = 2"
  by code_simp

subsection \<open>Frames whose bytes do not fit their size\<close>

text \<open>
  Claim C10. On a resolved surface, a frame whose byte sequence is not of length
  \<open>width * height * 4\<close> makes \<open>renderVideoFrame\<close> raise the exception of \<open>new ImageData\<close>;
  so a call that raises nothing was given a frame of exactly that length.
\<close>

theorem malformed_frame_raises:
  "surface_resolved (resolve_surface s) \<longrightarrow>
     (length (data f) \<noteq> width f * height f * 4 \<longrightarrow>
        fst (renderVideoFrame f s) = Some InvalidStateError \<or>
        fst (renderVideoFrame f s) = Some IndexSizeError) \<and>
     (fst (renderVideoFrame f s) = None \<longrightarrow> length (data f) = width f * height f * 4)"
proof
  assume "surface_resolved (resolve_surface s)"
  then obtain c where
    r: "renderVideoFrame f s =
       (case ImageData (Uint8ClampedArray (data f)) (width f) (height f) of
          Inl e \<Rightarrow> (Some e, (resolve_surface s)\<lparr>video_canvas := Some (fit_canvas f c)\<rparr>)
        | Inr img \<Rightarrow> (None, (resolve_surface s)\<lparr>video_canvas := Some (putImageData img (fit_canvas f c))\<rparr>))"
    by (rule render_resolved)
  have len: "length (Uint8ClampedArray (data f)) = length (data f)"
    by (simp add: Uint8ClampedArray_def)
  show "(length (data f) \<noteq> width f * height f * 4 \<longrightarrow>
        fst (renderVideoFrame f s) = Some InvalidStateError \<or>
        fst (renderVideoFrame f s) = Some IndexSizeError) \<and>
     (fst (renderVideoFrame f s) = None \<longrightarrow> length (data f) = width f * height f * 4)"
  proof (cases "ImageData (Uint8ClampedArray (data f)) (width f) (height f)")
    case (Inl e)
    then have "e = InvalidStateError \<or> e = IndexSizeError"
      by (auto simp: ImageData_def split: if_splits)
    then show ?thesis by (auto simp: r Inl)
  next
    case (Inr img)
    then have "length (data f) = width f * height f * 4"
      using ImageData_length len by metis
    then show ?thesis by simp
  qed
qed

theorem malformed_frame_raises_witness:
  "surface_resolved (resolve_surface full_page) \<and>
   length (data short_frame) \<noteq> width short_frame * height short_frame * 4 \<and>
   fst (renderVideoFrame short_frame full_page) = Some InvalidStateError \<and>
   fst (renderVideoFrame pixel_frame full_page) = None \<and>
   length (data pixel_frame) = width pixel_frame * height pixel_frame * 4"
proof -
  have u: "surface_resolved (resolve_surface full_page)"
    by code_simp
  have a: "fst (renderVideoFrame short_frame full_page) = Some InvalidStateError"
    by code_simp
  have b: "fst (renderVideoFrame pixel_frame full_page) = None"
    by code_simp
  have c: "length (data short_frame) \<noteq> width short_frame * height short_frame * 4"
    by (simp add: short_frame_def)
  show ?thesis
    using malformed_frame_raises [of full_page pixel_frame]
      malformed_frame_raises [of full_page short_frame] u a b c
    by simp
qed

section \<open>Playback state\<close>

subsection \<open>Play and pause\<close>

lemma updatePlayPauseUI_fields [simp]:
  "isPlaying (updatePlayPauseUI s) = isPlaying s"
  "currentTime (updatePlayPauseUI s) = currentTime s"
  "duration (updatePlayPauseUI s) = duration s"
  "volume (updatePlayPauseUI s) = volume s"
  "lastVolume (updatePlayPauseUI s) = lastVolume s"
  "invoked (updatePlayPauseUI s) = invoked s"
  by (simp_all add: updatePlayPauseUI_def)

lemma togglePlayPause_fields [simp]:
  "currentTime (togglePlayPause r s) = currentTime s"
  "duration (togglePlayPause r s) = duration s"
  "volume (togglePlayPause r s) = volume s"
  "lastVolume (togglePlayPause r s) = lastVolume s"
  by (simp_all add: togglePlayPause_def console_error_def Let_def split: sum.splits)

lemma togglePlayPause_isPlaying:
  "isPlaying (togglePlayPause r s) = (case r of Inl e \<Rightarrow> \<not> isPlaying s | Inr b \<Rightarrow> b)"
  by (simp add: togglePlayPause_def console_error_def Let_def split: sum.splits)

text \<open>
  Claim C1. When \<open>toggle_playback\<close> succeeds with \<open>b\<close>, \<open>isPlaying\<close> becomes \<open>b\<close>; when it
  fails, \<open>isPlaying\<close> becomes the negation of its value. Only a failure acts as the local
  negation whatever the value was: a success with \<open>b\<close> leaves \<open>b\<close> also when \<open>isPlaying\<close>
  was \<open>b\<close> already. Either way the command was sent once.
\<close>

theorem toggle_adopts_engine_value:
  "isPlaying (togglePlayPause (Inr b) s) = b \<and>
   isPlaying (togglePlayPause (Inl e) s) = (\<not> isPlaying s) \<and>
   ((\<forall>p. isPlaying (togglePlayPause r (s\<lparr>isPlaying := p\<rparr>)) = (\<not> p)) = isl r) \<and>
   invoked (togglePlayPause r s) = invoked s @ [TogglePlayback]"
proof -
  have "(\<forall>p. isPlaying (togglePlayPause r (s\<lparr>isPlaying := p\<rparr>)) = (\<not> p)) = isl r"
  proof (cases r)
    case (Inl e)
    then show ?thesis by (simp add: togglePlayPause_isPlaying)
  next
    case (Inr b)
    have "isPlaying (togglePlayPause r (s\<lparr>isPlaying := b\<rparr>)) \<noteq> (\<not> b)"
      by (simp add: togglePlayPause_isPlaying Inr)
    then show ?thesis using Inr by auto
  qed
  moreover have "invoked (togglePlayPause r s) = invoked s @ [TogglePlayback]"
    by (simp add: togglePlayPause_def console_error_def Let_def split: sum.splits)
  ultimately show ?thesis by (simp add: togglePlayPause_isPlaying)
qed

subsection \<open>The local clock\<close>

lemma updateDisplay_fields [simp]:
  "isPlaying (updateTimeDisplay a b s) = isPlaying s"
  "currentTime (updateTimeDisplay a b s) = currentTime s"
  "duration (updateTimeDisplay a b s) = duration s"
  "volume (updateTimeDisplay a b s) = volume s"
  "lastVolume (updateTimeDisplay a b s) = lastVolume s"
  "invoked (updateTimeDisplay a b s) = invoked s"
  "isPlaying (updateProgress c s) = isPlaying s"
  "currentTime (updateProgress c s) = currentTime s"
  "duration (updateProgress c s) = duration s"
  "volume (updateProgress c s) = volume s"
  "lastVolume (updateProgress c s) = lastVolume s"
  "invoked (updateProgress c s) = invoked s"
  by (simp_all add: updateTimeDisplay_def updateProgress_def)

lemma tick_fields [simp]:
  "isPlaying (tick s) = isPlaying s"
  "duration (tick s) = duration s"
  "volume (tick s) = volume s"
  "lastVolume (tick s) = lastVolume s"
  "invoked (tick s) = invoked s"
  by (simp_all add: tick_def Let_def)

lemma tick_currentTime:
  "currentTime (tick s) =
     (if isPlaying s \<and> currentTime s < duration s then currentTime s + 1 else currentTime s)"
  by (simp add: tick_def Let_def)



subsection \<open>Rounding\<close>

lemma ilog2_le: "0 < n \<Longrightarrow> 2 ^ ilog2 n \<le> n"
proof (induction n rule: ilog2.induct)
  case (1 n)
  show ?case
  proof (cases "n < 2")
    case True
    with "1.prems" show ?thesis by simp
  next
    case False
    then have "0 < n div 2" by simp
    with False "1.IH" have "2 ^ ilog2 (n div 2) \<le> n div 2" by simp
    then have "2 * 2 ^ ilog2 (n div 2) \<le> n" by simp
    with False show ?thesis by simp
  qed
qed

lemma clog2_ge: "n \<le> 2 ^ clog2 n"
proof (induction n rule: clog2.induct)
  case (1 n)
  show ?case
  proof (cases "n < 2")
    case True
    then show ?thesis by simp
  next
    case False
    with "1.IH" have "(n + 1) div 2 \<le> 2 ^ clog2 ((n + 1) div 2)" by simp
    then have "n \<le> 2 * 2 ^ clog2 ((n + 1) div 2)" by simp
    with False show ?thesis by simp
  qed
qed

lemma exponent_le:
  assumes "0 < x"
  shows "2 powi exponent x \<le> x"
proof (cases "1 \<le> x")
  case True
  then have pos: "0 < \<lfloor>x\<rfloor>" by simp
  have "(2::real) ^ ilog2 \<lfloor>x\<rfloor> = real_of_int (2 ^ ilog2 \<lfloor>x\<rfloor>)" by simp
  also have "\<dots> \<le> real_of_int \<lfloor>x\<rfloor>"
    using ilog2_le [OF pos] by (simp only: of_int_le_iff)
  also have "\<dots> \<le> x" by simp
  finally show ?thesis using True by (simp add: exponent_def)
next
  case False
  define c where "c = clog2 \<lceil>1 / x\<rceil>"
  have "1 / x \<le> real_of_int \<lceil>1 / x\<rceil>" by simp
  also have "\<dots> \<le> real_of_int (2 ^ c)"
    unfolding c_def using clog2_ge by (simp only: of_int_le_iff)
  finally have "1 / x \<le> 2 ^ c" by simp
  with assms have "1 / 2 ^ c \<le> x"
    by (simp add: field_simps)
  moreover have "2 powi exponent x = 1 / (2::real) ^ c"
    using False by (simp add: exponent_def c_def power_int_minus_divide)
  ultimately show ?thesis by simp
qed

lemma ulp_pos: "0 < ulp x"
  by (simp add: ulp_def)

lemma round_even_le:
  assumes "r \<le> of_int n"
  shows "round_even r \<le> n"
proof -
  have f: "\<lfloor>r\<rfloor> \<le> n" using assms by (simp add: floor_le_iff)
  show ?thesis
  proof (cases "r - of_int \<lfloor>r\<rfloor> < 1 / 2")
    case True
    then show ?thesis using f by (simp add: round_even_def)
  next
    case False
    then have "of_int \<lfloor>r\<rfloor> < r" by linarith
    with assms have "real_of_int \<lfloor>r\<rfloor> < of_int n" by linarith
    then have "\<lfloor>r\<rfloor> < n" by simp
    then have "\<lfloor>r\<rfloor> + 1 \<le> n" by simp
    with f show ?thesis by (simp add: round_even_def Let_def)
  qed
qed

lemma round_even_nonneg: "0 \<le> r \<Longrightarrow> 0 \<le> round_even r"
  by (simp add: round_even_def Let_def)

lemma double_multiple:
  assumes "is_double d" and "0 < x" and "x \<le> d"
  shows "\<exists>n. d = of_int n * ulp x"
proof -
  from assms(1) obtain m k where m: "\<bar>m\<bar> < 2 ^ 53" and k: "- 1074 \<le> k"
    and d: "d = of_int m * 2 powi k"
    unfolding is_double_def by blast
  define j where "j = max (exponent x) (- 1022) - 52"
  have u: "ulp x = 2 powi j" by (simp add: ulp_def j_def)
  have "j \<le> k"
  proof (cases "exponent x \<le> - 1022")
    case True
    then show ?thesis using k by (simp add: j_def)
  next
    case False
    have "2 powi exponent x \<le> d" using exponent_le [OF assms(2)] assms(3) by simp
    also have "d < 2 ^ 53 * 2 powi k"
    proof -
      have "m < 2 ^ 53" using m by linarith
      then have "real_of_int m < real_of_int (2 ^ 53)" by (simp only: of_int_less_iff)
      then have "real_of_int m < 2 ^ 53" by simp
      then show ?thesis unfolding d by simp
    qed
    also have "\<dots> = (2::real) powi (53 + k)"
      by (simp add: power_int_add)
    finally have lt: "(2::real) powi exponent x < 2 powi (53 + k)" .
    have "exponent x < 53 + k"
    proof (rule ccontr)
      assume "\<not> exponent x < 53 + k"
      then have "53 + k \<le> exponent x" by simp
      then have "(2::real) powi (53 + k) \<le> 2 powi exponent x"
        by (intro power_int_increasing) simp_all
      with lt show False by simp
    qed
    then show ?thesis using False by (simp add: j_def)
  qed
  then have "(2::real) powi k = 2 powi (k - j) * 2 powi j"
    by (simp add: power_int_add [symmetric])
  moreover from \<open>j \<le> k\<close> have "(2::real) powi (k - j) = of_int (2 ^ nat (k - j))"
    by (simp add: power_int_nonneg_exp)
  ultimately have "d = of_int (m * 2 ^ nat (k - j)) * ulp x"
    unfolding d u by simp
  then show ?thesis ..
qed

lemma fl_le_double:
  assumes "is_double d" and "0 < d" and "x \<le> d"
  shows "fl x \<le> d"
proof (cases "0 < x")
  case True
  from double_multiple [OF assms(1) True assms(3)]
  obtain n where n: "d = of_int n * ulp x" by blast
  have "x / ulp x \<le> of_int n"
    using assms(3) ulp_pos [of x] unfolding n by (simp add: field_simps)
  then have "round_even (x / ulp x) \<le> n" by (rule round_even_le)
  then have "ulp x * of_int (round_even (x / ulp x)) \<le> ulp x * of_int n"
    using ulp_pos [of x] by simp
  then show ?thesis using True unfolding n by (simp add: fl_def mult.commute)
next
  case False
  have "fl x \<le> 0"
  proof (cases "x = 0")
    case True
    then show ?thesis by (simp add: fl_def)
  next
    case nz: False
    with False have neg: "x < 0" by simp
    then have "0 \<le> (- x) / ulp (- x)" using ulp_pos [of "- x"]
      by (intro divide_nonneg_pos) simp_all
    then have "0 \<le> round_even (- x / ulp (- x))" by (rule round_even_nonneg)
    then have "0 \<le> ulp (- x) * of_int (round_even (- x / ulp (- x)))"
      using ulp_pos [of "- x"] by simp
    then show ?thesis using neg by (simp add: fl_def)
  qed
  with assms(2) show ?thesis by simp
qed

lemma is_double_1: "is_double 1"
  unfolding is_double_def by (rule exI [of _ 1], rule exI [of _ 0]) simp

lemma is_double_100: "is_double 100"
  unfolding is_double_def by (rule exI [of _ 100], rule exI [of _ 0]) simp


text \<open>The rounded value is within half a unit in the last place.\<close>

lemma round_even_near: "\<bar>of_int (round_even r) - r\<bar> \<le> 1 / 2"
  by (simp add: round_even_def Let_def)

lemma fl_near:
  assumes "0 < x"
  shows "\<bar>fl x - x\<bar> \<le> ulp x / 2"
proof -
  have u: "0 < ulp x" by (rule ulp_pos)
  have "fl x - x = ulp x * (of_int (round_even (x / ulp x)) - x / ulp x)"
    using assms u by (simp add: fl_def algebra_simps)
  then have "\<bar>fl x - x\<bar> = ulp x * \<bar>of_int (round_even (x / ulp x)) - x / ulp x\<bar>"
    using u by (simp add: abs_mult)
  also have "\<dots> \<le> ulp x * (1 / 2)"
    using u round_even_near [of "x / ulp x"] by (intro mult_left_mono) simp_all
  finally show ?thesis by simp
qed

subsection \<open>Seeking\<close>

lemma progressBar_click_fields [simp]:
  "isPlaying (progressBar_click cx l w r s) = isPlaying s"
  "duration (progressBar_click cx l w r s) = duration s"
  "volume (progressBar_click cx l w r s) = volume s"
  "lastVolume (progressBar_click cx l w r s) = lastVolume s"
  by (simp_all add: progressBar_click_def console_error_def Let_def split: sum.splits)

lemma progressBar_click_currentTime:
  "currentTime (progressBar_click cx l w r s) =
     (if \<not> progress_bar s then currentTime s
      else case r of Inl e \<Rightarrow> seek_time cx l w (duration s) | Inr a \<Rightarrow> a)"
  by (simp add: progressBar_click_def Let_def console_error_def seek_time_def
      split: sum.splits)

lemma progressBar_click_invoked:
  "invoked (progressBar_click cx l w r s) =
     (if \<not> progress_bar s then invoked s
      else invoked s @ [SeekTo (seek_time cx l w (duration s))])"
  by (simp add: progressBar_click_def Let_def console_error_def seek_time_def
      split: sum.splits)

lemma progressBar_click_shown:
  "progress_bar s \<Longrightarrow>
   current_time (progressBar_click cx l w r s) =
     map_option (\<lambda>_. formatTime (currentTime (progressBar_click cx l w r s))) (current_time s)"
  by (simp add: progressBar_click_def console_error_def Let_def updateTimeDisplay_def
      updateProgress_def split: sum.splits)

text \<open>
  Claim C4, as amended. A click at the fraction \<open>p = (clientX - rect_left) / rect_width\<close> of
  the bar asks the engine for the time the code computes from it in double arithmetic,
  \<open>((p * 100) / 100) * duration\<close> with every operation rounded. If \<open>seek_to\<close> succeeds with \<open>a\<close>
  the position becomes \<open>a\<close>; if it fails the position becomes the time asked for, the same
  number. The time shown is that of the position stored.
\<close>

theorem seek_request_and_fallback:
  "progress_bar s \<and> 0 < rect_width \<longrightarrow>
     invoked (progressBar_click clientX rect_left rect_width r s) =
       invoked s @
       [SeekTo
          (js_mul
             (js_div (js_mul (js_div (js_sub clientX rect_left) rect_width) 100) 100)
             (duration s))] \<and>
     currentTime (progressBar_click clientX rect_left rect_width (Inr a) s) = a \<and>
     currentTime (progressBar_click clientX rect_left rect_width (Inl e) s) =
       js_mul
         (js_div (js_mul (js_div (js_sub clientX rect_left) rect_width) 100) 100)
         (duration s) \<and>
     current_time (progressBar_click clientX rect_left rect_width r s) =
       map_option
         (\<lambda>_. formatTime (currentTime (progressBar_click clientX rect_left rect_width r s)))
         (current_time s)"
  by (simp add: progressBar_click_currentTime progressBar_click_invoked progressBar_click_shown
      seek_time_def)

theorem seek_request_and_fallback_witness:
  "progress_bar (initPlayerControls full_page) \<and> 0 < (200::real) \<and>
   invoked (progressBar_click 60 10 200 (Inl EngineError) (initPlayerControls full_page)) =
     [SeekTo 45] \<and>
   currentTime (progressBar_click 60 10 200 (Inl EngineError) (initPlayerControls full_page)) = 45 \<and>
   currentTime (progressBar_click 60 10 200 (Inr 44) (initPlayerControls full_page)) = 44 \<and>
   current_time (progressBar_click 60 10 200 (Inl EngineError) (initPlayerControls full_page)) =
     Some ''00:45''"
proof -
  have p: "progress_bar (initPlayerControls full_page)"
    "duration (initPlayerControls full_page) = 180"
    "invoked (initPlayerControls full_page) = []"
    "current_time (initPlayerControls full_page) = Some ''00:00''"
    by code_simp+
  have f: "formatTime 45 = ''00:45''" by code_simp
  have t: "js_mul (js_div (js_mul (js_div (js_sub 60 10) 200) 100) 100) 180 = 45"
    by code_simp
  show ?thesis
    using seek_request_and_fallback
            [of "initPlayerControls full_page" 200 60 10 "Inl EngineError" 44 EngineError] p
    by (simp add: f t)
qed

text \<open>
  The claim as written has the time asked for equal to \<open>p * D\<close>. A click 100 pixels into a
  bar of 300 on a duration of 180 asks for \<open>60 - 1 / 2 ^ 46\<close> (printed 59.999999999999986),
  stores it when the engine fails and shows 00:59, while \<open>p * D\<close> is 60, in exact and in
  double arithmetic.
\<close>

theorem seek_request_counterexample:
  "progress_bar (initPlayerControls full_page) \<and>
   duration (initPlayerControls full_page) = 180 \<and>
   invoked (progressBar_click 110 10 300 (Inl EngineError) (initPlayerControls full_page)) =
     [SeekTo (60 - 1 / 2 ^ 46)] \<and>
   currentTime (progressBar_click 110 10 300 (Inl EngineError) (initPlayerControls full_page)) =
     60 - 1 / 2 ^ 46 \<and>
   current_time (progressBar_click 110 10 300 (Inl EngineError) (initPlayerControls full_page)) =
     Some ''00:59'' \<and>
   (110 - 10) / 300 * (180::real) = 60 \<and>
   js_mul (js_div (js_sub 110 10) 300) 180 = 60"
  by code_simp

subsection \<open>What the other handlers leave alone\<close>

lemma update_volume_icon_fields [simp]:
  "isPlaying (update_volume_icon s) = isPlaying s"
  "currentTime (update_volume_icon s) = currentTime s"
  "duration (update_volume_icon s) = duration s"
  "volume (update_volume_icon s) = volume s"
  "lastVolume (update_volume_icon s) = lastVolume s"
  "invoked (update_volume_icon s) = invoked s"
  by (simp_all add: update_volume_icon_def)

lemma volumeSlider_input_fields [simp]:
  "isPlaying (volumeSlider_input v r s) = isPlaying s"
  "currentTime (volumeSlider_input v r s) = currentTime s"
  "duration (volumeSlider_input v r s) = duration s"
  "lastVolume (volumeSlider_input v r s) = lastVolume s"
  by (simp_all add: volumeSlider_input_def console_error_def Let_def split: sum.splits)

lemma volumeSlider_input_volume:
  "volume (volumeSlider_input v r s) =
     (if \<not> volume_controls s then volume s
      else case r of Inl e \<Rightarrow> real_of_int v / 100 | Inr a \<Rightarrow> a)"
  by (simp add: volumeSlider_input_def console_error_def Let_def split: sum.splits)

lemma volumeSlider_input_invoked:
  "volume_controls s \<Longrightarrow>
   invoked (volumeSlider_input v r s) = invoked s @ [SetVolume (real_of_int v / 100)]"
  by (simp add: volumeSlider_input_def console_error_def Let_def split: sum.splits)

lemma volumeBtn_click_fields [simp]:
  "isPlaying (volumeBtn_click r s) = isPlaying s"
  "currentTime (volumeBtn_click r s) = currentTime s"
  "duration (volumeBtn_click r s) = duration s"
  by (simp_all add: volumeBtn_click_def console_error_def Let_def split: sum.splits)

lemma volumeBtn_click_volume:
  "volume (volumeBtn_click r s) =
     (if \<not> volume_controls s then volume s
      else case r of
             Inr a \<Rightarrow> a
           | Inl e \<Rightarrow>
               if volume s > 0 then 0
               else (case lastVolume s of None \<Rightarrow> 0.8 | Some l \<Rightarrow> if l = 0 then 0.8 else l))"
  by (simp add: volumeBtn_click_def console_error_def Let_def split: sum.splits)

lemma volumeBtn_click_lastVolume:
  "lastVolume (volumeBtn_click r s) =
     (if volume_controls s \<and> volume s > 0 then Some (volume s) else lastVolume s)"
  by (simp add: volumeBtn_click_def console_error_def Let_def split: sum.splits)

lemma showMediaIcon_fields [simp]:
  "isPlaying (showMediaIcon lc p s) = isPlaying s"
  "currentTime (showMediaIcon lc p s) = currentTime s"
  "duration (showMediaIcon lc p s) = duration s"
  "volume (showMediaIcon lc p s) = volume s"
  "lastVolume (showMediaIcon lc p s) = lastVolume s"
  "invoked (showMediaIcon lc p s) = invoked s"
  by (simp_all add: showMediaIcon_def Let_def)

lemma open_failed_fields [simp]:
  "isPlaying (open_failed s) = isPlaying s"
  "currentTime (open_failed s) = currentTime s"
  "duration (open_failed s) = duration s"
  "volume (open_failed s) = volume s"
  "lastVolume (open_failed s) = lastVolume s"
  "invoked (open_failed s) = invoked s"
  by (simp_all add: open_failed_def console_error_def)

lemma openFileDialog_fields [simp]:
  "isPlaying (openFileDialog lc sel mx ld s) = isPlaying s"
  "currentTime (openFileDialog lc sel mx ld s) = currentTime s"
  "duration (openFileDialog lc sel mx ld s) = duration s"
  "volume (openFileDialog lc sel mx ld s) = volume s"
  "lastVolume (openFileDialog lc sel mx ld s) = lastVolume s"
  by (simp_all add: openFileDialog_def console_error_def Let_def
      split: sum.splits option.splits)

lemma openFileDialog_invoked:
  "path \<noteq> [] \<Longrightarrow>
   invoked (openFileDialog lc (Inr (Some path)) (Inr u) ld s) = invoked s @ [LoadFile path]"
  by (simp add: openFileDialog_def console_error_def Let_def split: sum.splits)

lemma prev_next_fields [simp]:
  "isPlaying (prevBtn_click r s) = isPlaying s"
  "currentTime (prevBtn_click r s) = currentTime s"
  "duration (prevBtn_click r s) = duration s"
  "volume (prevBtn_click r s) = volume s"
  "lastVolume (prevBtn_click r s) = lastVolume s"
  "isPlaying (nextBtn_click r s) = isPlaying s"
  "currentTime (nextBtn_click r s) = currentTime s"
  "duration (nextBtn_click r s) = duration s"
  "volume (nextBtn_click r s) = volume s"
  "lastVolume (nextBtn_click r s) = lastVolume s"
  by (simp_all add: prevBtn_click_def nextBtn_click_def console_error_def Let_def
      split: sum.splits)

lemma renderVideoFrame_fields [simp]:
  "isPlaying (snd (renderVideoFrame f s)) = isPlaying s"
  "currentTime (snd (renderVideoFrame f s)) = currentTime s"
  "duration (snd (renderVideoFrame f s)) = duration s"
  "volume (snd (renderVideoFrame f s)) = volume s"
  "lastVolume (snd (renderVideoFrame f s)) = lastVolume s"
  "invoked (snd (renderVideoFrame f s)) = invoked s"
  by (simp_all add: renderVideoFrame_def resolve_surface_def Let_def
      split: sum.splits option.splits)

subsection \<open>Opening a file\<close>

text \<open>
  Claim C3, as amended. \<open>openFileDialog\<close> leaves position, duration, playing flag and
  volume as they were, whatever the dialog, the window and the engine answer; when a file
  is selected and the window call succeeds, the path is sent to the engine with
  \<open>load_file\<close>. The duration is written by \<open>initPlayerControls\<close> only, which sets 180.
\<close>

theorem open_keeps_playback_state:
  "currentTime (openFileDialog toLowerCase selected maximized loaded s) = currentTime s \<and>
   duration (openFileDialog toLowerCase selected maximized loaded s) = duration s \<and>
   isPlaying (openFileDialog toLowerCase selected maximized loaded s) = isPlaying s \<and>
   volume (openFileDialog toLowerCase selected maximized loaded s) = volume s \<and>
   (path \<noteq> [] \<longrightarrow>
      invoked (openFileDialog toLowerCase (Inr (Some path)) (Inr u) loaded s) =
        invoked s @ [LoadFile path]) \<and>
   duration (initPlayerControls s) = 180"
  by (simp add: openFileDialog_invoked initPlayerControls_def Let_def)

theorem open_keeps_playback_state_witness:
  "''/music/a.mp3'' \<noteq> [] \<and>
   invoked
     (openFileDialog toLowerCase_ascii (Inr (Some ''/music/a.mp3'')) (Inr ()) (Inr ()) full_page) =
     [LoadFile ''/music/a.mp3''] \<and>
   currentTime
     (openFileDialog toLowerCase_ascii (Inr (Some ''/music/a.mp3'')) (Inr ()) (Inr ()) full_page) =
     0"
proof -
  have "invoked full_page = []" "currentTime full_page = 0"
    by code_simp+
  then show ?thesis
    using open_keeps_playback_state
            [where toLowerCase = toLowerCase_ascii and selected = "Inr (Some ''/music/a.mp3'')"
               and maximized = "Inr ()" and loaded = "Inr ()" and s = full_page
               and path = "''/music/a.mp3''" and u = "()"]
    by simp
qed

text \<open>
  The claim as written asks for position 0 after every open. A file opened at position 42
  reaches the engine and the position is still 42, the duration still 180.
\<close>

theorem open_resets_counterexample:
  "invoked (run toLowerCase_ascii
              [ProgressClick 90 0 180 (Inr 42),
               OpenFile (Inr (Some ''/music/a.mp3'')) (Inr ()) (Inr ())]
              (initPlayerControls full_page)) = [SeekTo 90, LoadFile ''/music/a.mp3''] \<and>
   currentTime (run toLowerCase_ascii
                  [ProgressClick 90 0 180 (Inr 42),
                   OpenFile (Inr (Some ''/music/a.mp3'')) (Inr ()) (Inr ())]
                  (initPlayerControls full_page)) = 42 \<and>
   duration (run toLowerCase_ascii
               [ProgressClick 90 0 180 (Inr 42),
                OpenFile (Inr (Some ''/music/a.mp3'')) (Inr ()) (Inr ())]
               (initPlayerControls full_page)) = 180"
  by code_simp

subsection \<open>Volume\<close>

lemma update_volume_icon_shows:
  "volume_mute_icon (update_volume_icon s) =
     Some (if volume s = 0 then ''block'' else ''none'')"
  "volume_low_icon (update_volume_icon s) =
     Some (if volume s \<noteq> 0 \<and> volume s < 1 / 2 then ''block'' else ''none'')"
  "volume_high_icon (update_volume_icon s) =
     Some (if volume s \<noteq> 0 \<and> \<not> volume s < 1 / 2 then ''block'' else ''none'')"
  by (simp_all add: update_volume_icon_def)

lemma volumeSlider_input_icons:
  assumes "volume_controls s"
  shows "volume_mute_icon (volumeSlider_input v r s) =
           Some (if volume (volumeSlider_input v r s) = 0 then ''block'' else ''none'') \<and>
         volume_low_icon (volumeSlider_input v r s) =
           Some (if volume (volumeSlider_input v r s) \<noteq> 0 \<and>
                    volume (volumeSlider_input v r s) < 1 / 2 then ''block'' else ''none'') \<and>
         volume_high_icon (volumeSlider_input v r s) =
           Some (if volume (volumeSlider_input v r s) \<noteq> 0 \<and>
                    \<not> volume (volumeSlider_input v r s) < 1 / 2 then ''block'' else ''none'')"
proof -
  from assms obtain s2 where eq: "volumeSlider_input v r s = update_volume_icon s2"
    by (simp add: volumeSlider_input_def Let_def)
  show ?thesis
    unfolding eq by (simp only: update_volume_icon_shows update_volume_icon_fields)
qed

lemma handle_volume_in_range:
  assumes "volume_in_range s" and "volume_event_ok e"
  shows "volume_in_range (handle lc e s)"
proof (cases e)
  case (VolumeInput v r)
  then show ?thesis using assms
    by (auto simp: volume_in_range_def volumeSlider_input_volume level_ok_def
        split: sum.splits option.splits)
next
  case (VolumeClick r)
  then show ?thesis using assms
    by (auto simp: volume_in_range_def volumeBtn_click_volume volumeBtn_click_lastVolume
        level_ok_def split: sum.splits option.splits)
qed (use assms in \<open>simp_all add: volume_in_range_def\<close>)

lemma run_volume_in_range:
  "volume_in_range s \<Longrightarrow> list_all volume_event_ok es \<Longrightarrow> volume_in_range (run lc es s)"
proof (induction es arbitrary: s)
  case Nil
  then show ?case by simp
next
  case (Cons e es)
  from Cons.prems have "volume_in_range (handle lc e s)"
    by (simp add: handle_volume_in_range)
  moreover from Cons.prems have "list_all volume_event_ok es" by simp
  ultimately have "volume_in_range (run lc es (handle lc e s))" by (rule Cons.IH)
  then show ?case by simp
qed

text \<open>
  Claim C2, as amended. The slider at \<open>v\<close> asks the engine for \<open>v / 100\<close>. After the
  handler the stored volume is the engine's answer as it is when \<open>set_volume\<close> succeeds,
  and \<open>v / 100\<close> when it fails. The icon shown is that of the stored volume: the mute icon
  at 0, the low icon below one half, the high icon from one half on, the other two hidden.
  So after a failure with \<open>v\<close> from 0 to 100 the volume is in range, and after a success it
  is in range exactly when the engine's answer is. Over any sequence of events the volume
  stays in range provided every answer of \<open>set_volume\<close> is.
\<close>

theorem volume_follows_engine:
  "(volume_controls s \<longrightarrow>
      invoked (volumeSlider_input v r s) = invoked s @ [SetVolume (real_of_int v / 100)] \<and>
      volume (volumeSlider_input v (Inr a) s) = a \<and>
      volume (volumeSlider_input v (Inl e) s) = real_of_int v / 100 \<and>
      volume_mute_icon (volumeSlider_input v r s) =
        Some (if volume (volumeSlider_input v r s) = 0 then ''block'' else ''none'') \<and>
      volume_low_icon (volumeSlider_input v r s) =
        Some (if volume (volumeSlider_input v r s) \<noteq> 0 \<and>
                 volume (volumeSlider_input v r s) < 1 / 2 then ''block'' else ''none'') \<and>
      volume_high_icon (volumeSlider_input v r s) =
        Some (if volume (volumeSlider_input v r s) \<noteq> 0 \<and>
                 \<not> volume (volumeSlider_input v r s) < 1 / 2 then ''block'' else ''none'')) \<and>
   (volume_in_range s \<and> 0 \<le> v \<and> v \<le> 100 \<longrightarrow>
      volume_in_range (volumeSlider_input v (Inl e) s)) \<and>
   (volume_in_range s \<and> volume_controls s \<longrightarrow>
      volume_in_range (volumeSlider_input v (Inr a) s) = (0 \<le> a \<and> a \<le> 1)) \<and>
   (volume_in_range s \<and> list_all volume_event_ok es \<longrightarrow>
      volume_in_range (run toLowerCase es s))"
proof -
  have 1: "volume_in_range (volumeSlider_input v (Inl e) s)"
    if "volume_in_range s" "0 \<le> v" "v \<le> 100"
    using handle_volume_in_range [of s "VolumeInput v (Inl e)"] that
    by (simp add: level_ok_def)
  have 2: "volume_in_range (volumeSlider_input v (Inr a) s) = (0 \<le> a \<and> a \<le> 1)"
    if "volume_in_range s" "volume_controls s"
    using that by (simp add: volume_in_range_def volumeSlider_input_volume)
  have 3: "volume (volumeSlider_input v (Inr a) s) = a"
    "volume (volumeSlider_input v (Inl e) s) = real_of_int v / 100"
    if "volume_controls s"
    using that by (simp_all add: volumeSlider_input_volume)
  show ?thesis
    using 1 2 3 volumeSlider_input_icons [of s v r] volumeSlider_input_invoked [of s v r]
      run_volume_in_range [of s es toLowerCase]
    by blast
qed

theorem volume_follows_engine_witness:
  "volume_controls full_page \<and> volume_in_range full_page \<and> (0::int) \<le> 30 \<and> (30::int) \<le> 100 \<and>
   list_all volume_event_ok busy_session \<and>
   volume (volumeSlider_input 30 (Inr (1 / 4)) full_page) = 1 / 4 \<and>
   volume (volumeSlider_input 30 (Inl EngineError) full_page) = 3 / 10 \<and>
   volume_low_icon (volumeSlider_input 30 (Inr (1 / 4)) full_page) = Some ''block'' \<and>
   volume_high_icon (volumeSlider_input 30 (Inr (1 / 4)) full_page) = Some ''none'' \<and>
   volume_mute_icon (volumeSlider_input 30 (Inr (1 / 4)) full_page) = Some ''none'' \<and>
   volume_in_range (volumeSlider_input 30 (Inl EngineError) full_page) \<and>
   volume_in_range (volumeSlider_input 30 (Inr (1 / 4)) full_page) \<and>
   volume_in_range (run toLowerCase_ascii busy_session full_page)"
proof -
  have h: "volume_controls full_page" "volume_in_range full_page"
    "list_all volume_event_ok busy_session"
    by code_simp+
  show ?thesis
    using volume_follows_engine
            [where s = full_page and v = 30 and a = "1 / 4" and e = EngineError
               and r = "Inr (1 / 4)" and es = busy_session
               and toLowerCase = toLowerCase_ascii] h
    by simp
qed

text \<open>
  The claim as written has the answer clamped. An answer of 1.5 to the slider at 50 is
  stored as 1.5.
\<close>

theorem volume_clamped_counterexample:
  "(0::int) \<le> 50 \<and> (50::int) \<le> 100 \<and> volume_controls full_page \<and>
   0 \<le> volume full_page \<and> volume full_page \<le> 1 \<and>
   volume (volumeSlider_input 50 (Inr (3 / 2)) full_page) = 3 / 2 \<and>
   \<not> volume (volumeSlider_input 50 (Inr (3 / 2)) full_page) \<le> 1 \<and>
   volume (volumeSlider_input 50 (Inr (3 / 2)) full_page) \<noteq> max 0 (min 1 (3 / 2))"
  by code_simp

subsection \<open>Position and duration\<close>

lemma whole_gap:
  assumes "whole (d - c)" and "c < d"
  shows "c + 1 \<le> d"
proof -
  define n where "n = \<lfloor>d - c\<rfloor>"
  have eq: "d - c = of_int n"
    using assms(1) unfolding whole_def n_def by (rule sym)
  from assms(2) have "0 < d - c" by simp
  then have "(0::real) < of_int n" unfolding eq .
  then have "1 \<le> n" by simp
  then have "(1::real) \<le> of_int n" by simp
  then have "1 \<le> d - c" unfolding eq .
  then show ?thesis by simp
qed

lemma seek_time_le:
  assumes "0 < w" and "cx \<le> l + w" and "is_double w" and "is_double d" and "0 < d"
  shows "seek_time cx l w d \<le> d"
proof -
  define x where "x = js_sub cx l"
  define p where "p = js_div x w"
  define pc where "pc = js_mul p 100"
  define q where "q = js_div pc 100"
  have "x \<le> w" unfolding x_def js_sub_def
    using assms(1-3) by (intro fl_le_double) simp_all
  then have "x / w \<le> 1" using assms(1) by simp
  then have "p \<le> 1" unfolding p_def js_div_def
    by (intro fl_le_double is_double_1) simp_all
  then have "pc \<le> 100" unfolding pc_def js_mul_def
    by (intro fl_le_double is_double_100) simp_all
  then have "q \<le> 1" unfolding q_def js_div_def
    by (intro fl_le_double is_double_1) simp_all
  then have "q * d \<le> d" using assms(5) by simp
  then have "js_mul q d \<le> d" unfolding js_mul_def
    using assms(4,5) by (intro fl_le_double) simp_all
  then show ?thesis
    by (simp add: seek_time_def x_def p_def pc_def q_def)
qed

lemma handle_position_bounded:
  assumes "position_bounded s" and "within_bounds e s"
  shows "position_bounded (handle lc e s)"
proof (cases e)
  case Tick
  then show ?thesis using assms
    by (auto simp: position_bounded_def tick_currentTime)
next
  case (ProgressClick cx l w r)
  then show ?thesis using assms
    by (auto simp: position_bounded_def progressBar_click_currentTime split: sum.splits)
qed (use assms in \<open>simp_all add: position_bounded_def\<close>)

lemma run_position_bounded:
  "position_bounded s \<Longrightarrow> run_within_bounds lc es s \<Longrightarrow> position_bounded (run lc es s)"
proof (induction es arbitrary: s)
  case Nil
  then show ?case by simp
next
  case (Cons e es)
  from Cons.prems have "position_bounded (handle lc e s)"
    by (simp add: handle_position_bounded)
  moreover from Cons.prems have "run_within_bounds lc es (handle lc e s)" by simp
  ultimately have "position_bounded (run lc es (handle lc e s))" by (rule Cons.IH)
  then show ?case by simp
qed

text \<open>
  Claim C6, as amended. \<open>position \<le> duration\<close> (whenever the duration is positive) is kept
  by every sequence of events in which each tick that advances finds a second left, each
  seek that the engine answers is answered with a position not after the duration, and
  each seek that fails asked for a time not after the duration. A tick does so when a whole
  number of seconds is left, a failed seek when the click is not right of the bar (the
  width of the bar and the duration being doubles). Play/pause, the volume handlers, the
  track buttons, opening a file and video frames keep the invariant under any answer.
\<close>

theorem position_bounded_preserved:
  "(position_bounded s \<and> run_within_bounds toLowerCase es s \<longrightarrow>
      position_bounded (run toLowerCase es s)) \<and>
   (whole (duration s - currentTime s) \<longrightarrow> within_bounds Tick s) \<and>
   (a \<le> duration s \<longrightarrow> within_bounds (ProgressClick clientX rect_left rect_width (Inr a)) s) \<and>
   (0 < rect_width \<and> clientX \<le> rect_left + rect_width \<and> is_double rect_width \<and>
    is_double (duration s) \<longrightarrow>
      within_bounds (ProgressClick clientX rect_left rect_width (Inl e)) s) \<and>
   within_bounds (PlayPauseClick b) s \<and> within_bounds (VolumeInput v r) s \<and>
   within_bounds (VolumeClick r) s \<and> within_bounds (PrevClick n) s \<and>
   within_bounds (NextClick n) s \<and> within_bounds (OpenFile selected maximized loaded) s \<and>
   within_bounds (VideoFrame f) s"
proof -
  have 1: "within_bounds Tick s" if "whole (duration s - currentTime s)"
    using that whole_gap [of "duration s" "currentTime s"] by simp
  have 2: "within_bounds (ProgressClick clientX rect_left rect_width (Inl e)) s"
    if "0 < rect_width \<and> clientX \<le> rect_left + rect_width \<and> is_double rect_width \<and>
        is_double (duration s)"
    using that seek_time_le [of rect_width clientX rect_left "duration s"] by simp
  show ?thesis
    using 1 2 run_position_bounded [of s toLowerCase es] by simp
qed

theorem position_bounded_preserved_witness:
  "0 < duration (initPlayerControls full_page) \<and>
   currentTime (initPlayerControls full_page) \<le> duration (initPlayerControls full_page) \<and>
   run_within_bounds toLowerCase_ascii busy_session (initPlayerControls full_page) \<and>
   position_bounded (run toLowerCase_ascii busy_session (initPlayerControls full_page)) \<and>
   currentTime (run toLowerCase_ascii busy_session (initPlayerControls full_page)) = 91 \<and>
   whole (duration (initPlayerControls full_page) - currentTime (initPlayerControls full_page)) \<and>
   within_bounds Tick (initPlayerControls full_page) \<and>
   (90::real) \<le> duration (initPlayerControls full_page) \<and>
   within_bounds (ProgressClick 110 10 200 (Inr 90)) (initPlayerControls full_page) \<and>
   (0::real) < 300 \<and> (110::real) \<le> 10 + 300 \<and> is_double 300 \<and>
   is_double (duration (initPlayerControls full_page)) \<and>
   within_bounds (ProgressClick 110 10 300 (Inl EngineError)) (initPlayerControls full_page)"
proof -
  have h: "position_bounded (initPlayerControls full_page)"
    "run_within_bounds toLowerCase_ascii busy_session (initPlayerControls full_page)"
    "0 < duration (initPlayerControls full_page)"
    "currentTime (initPlayerControls full_page) \<le> duration (initPlayerControls full_page)"
    "currentTime (run toLowerCase_ascii busy_session (initPlayerControls full_page)) = 91"
    "whole (duration (initPlayerControls full_page) - currentTime (initPlayerControls full_page))"
    "(90::real) \<le> duration (initPlayerControls full_page)"
    by code_simp+
  have d: "duration (initPlayerControls full_page) = 180"
    by code_simp
  have "is_double 300"
    unfolding is_double_def by (rule exI [of _ 300], rule exI [of _ 0]) simp
  moreover have "is_double 180"
    unfolding is_double_def by (rule exI [of _ 180], rule exI [of _ 0]) simp
  ultimately have i: "is_double 300" "is_double (duration (initPlayerControls full_page))"
    by (simp_all add: d)
  have g: "(0::real) < 300" "(110::real) \<le> 10 + 300"
    by simp_all
  note T = position_bounded_preserved
             [where s = "initPlayerControls full_page" and toLowerCase = toLowerCase_ascii
                and es = busy_session and a = 90 and clientX = 110 and rect_left = 10
                and e = EngineError]
  have 1: "position_bounded (run toLowerCase_ascii busy_session (initPlayerControls full_page))"
    using T h(1,2) by blast
  have 2: "within_bounds Tick (initPlayerControls full_page)"
    using T h(6) by blast
  have 3: "within_bounds (ProgressClick 110 10 200 (Inr 90)) (initPlayerControls full_page)"
    using T [where rect_width = 200] h(7) by blast
  have 4: "within_bounds (ProgressClick 110 10 300 (Inl EngineError))
             (initPlayerControls full_page)"
    using T [where rect_width = 300] g i by blast
  show ?thesis
    using h g i 1 2 3 4 by blast
qed

text \<open>
  The claim as written allows every answer of the engine and every tick. A seek answered
  with 500 on a duration of 180 leaves the position at 500. A seek answered with 179.5 is
  within the duration, and the next tick while playing leaves the position at 180.5.
\<close>

theorem position_bounded_counterexample:
  "0 < duration (initPlayerControls full_page) \<and>
   currentTime (initPlayerControls full_page) \<le> duration (initPlayerControls full_page) \<and>
   duration (progressBar_click 100 0 200 (Inr 500) (initPlayerControls full_page)) = 180 \<and>
   currentTime (progressBar_click 100 0 200 (Inr 500) (initPlayerControls full_page)) = 500 \<and>
   \<not> currentTime (progressBar_click 100 0 200 (Inr 500) (initPlayerControls full_page))
        \<le> duration (progressBar_click 100 0 200 (Inr 500) (initPlayerControls full_page)) \<and>
   currentTime
     (run toLowerCase_ascii [PlayPauseClick (Inr True), ProgressClick 100 0 200 (Inr (359 / 2))]
        (initPlayerControls full_page)) = 359 / 2 \<and>
   duration
     (run toLowerCase_ascii
        [PlayPauseClick (Inr True), ProgressClick 100 0 200 (Inr (359 / 2)), Tick]
        (initPlayerControls full_page)) = 180 \<and>
   currentTime
     (run toLowerCase_ascii
        [PlayPauseClick (Inr True), ProgressClick 100 0 200 (Inr (359 / 2)), Tick]
        (initPlayerControls full_page)) = 361 / 2 \<and>
   \<not> currentTime
         (run toLowerCase_ascii
            [PlayPauseClick (Inr True), ProgressClick 100 0 200 (Inr (359 / 2)), Tick]
            (initPlayerControls full_page))
       \<le> duration
           (run toLowerCase_ascii
              [PlayPauseClick (Inr True), ProgressClick 100 0 200 (Inr (359 / 2)), Tick]
              (initPlayerControls full_page))"
  by code_simp

section \<open>Media type routing\<close>

lemma set_display_twice [simp]: "set_display v (set_display u el) = set_display v el"
  by (cases el) (simp_all add: set_display_def)

lemma extensions_disjoint: "set audioExtensions \<inter> set videoExtensions = {}"
  by (simp add: audioExtensions_def videoExtensions_def)

lemma showMediaIcon_audio:
  assumes "extension_of lc p \<in> set audioExtensions \<or> extension_of lc p \<notin> set videoExtensions"
  shows "audio_presentation s (showMediaIcon lc p s)"
  using assms
  by (auto simp add: showMediaIcon_def audio_presentation_def Let_def option.map_comp comp_def)

lemma showMediaIcon_video:
  assumes "extension_of lc p \<in> set videoExtensions"
  shows "video_presentation s (showMediaIcon lc p s)"
proof -
  from assms extensions_disjoint have "extension_of lc p \<notin> set audioExtensions" by blast
  with assms show ?thesis
    by (simp add: showMediaIcon_def video_presentation_def Let_def option.map_comp comp_def)
qed

lemma last_segment_suffix:
  assumes "\<not> sep c" and "\<forall>x\<in>set e. \<not> sep x" and "sep d"
  shows "last_segment sep (base @ d # e) = e"
proof -
  have "takeWhile (\<lambda>c. \<not> sep c) (rev e @ d # rev base) = rev e"
    using assms by (simp add: takeWhile_append2 takeWhile_tail)
  then show ?thesis by (simp add: last_segment_def)
qed

lemma extension_flac:
  assumes "lowers_ascii lc"
  shows "extension_of lc (base @ ''.flac'') = ''flac''"
proof -
  have "last_segment (\<lambda>c. c = CHR ''.'') (base @ CHR ''.'' # ''flac'') = ''flac''"
    by (rule last_segment_suffix [where c = "CHR ''f''"]) simp_all
  moreover have "ascii_text ''flac''" "toLowerCase_ascii ''flac'' = ''flac''"
    by code_simp+
  ultimately show ?thesis using assms by (simp add: extension_of_def lowers_ascii_def)
qed

lemma extension_mkv:
  assumes "lowers_ascii lc"
  shows "extension_of lc (base @ ''.mkv'') = ''mkv''"
proof -
  have "last_segment (\<lambda>c. c = CHR ''.'') (base @ CHR ''.'' # ''mkv'') = ''mkv''"
    by (rule last_segment_suffix [where c = "CHR ''m''"]) simp_all
  moreover have "ascii_text ''mkv''" "toLowerCase_ascii ''mkv'' = ''mkv''"
    by code_simp+
  ultimately show ?thesis using assms by (simp add: extension_of_def lowers_ascii_def)
qed

lemma last_segment_none:
  assumes "\<forall>x\<in>set p. \<not> sep x"
  shows "last_segment sep p = p"
proof -
  from assms have "\<forall>x\<in>set (rev p). \<not> sep x" by simp
  then have tw: "takeWhile (\<lambda>c. \<not> sep c) (rev p) = rev p"
    by (simp only: takeWhile_eq_all_conv)
  show ?thesis unfolding last_segment_def tw by (rule rev_rev_ident)
qed

lemma extension_dotless:
  assumes "CHR ''.'' \<notin> set p"
  shows "extension_of lc p = lc p"
proof -
  from assms have "\<forall>x\<in>set p. \<not> x = CHR ''.''" by blast
  then have "last_segment (\<lambda>c. c = CHR ''.'') p = p" by (rule last_segment_none)
  then show ?thesis by (simp add: extension_of_def)
qed

lemma toLowerCase_ascii_keeps:
  assumes "c \<in> set p" and "lower_char c = c"
  shows "c \<in> set (toLowerCase_ascii p)"
proof -
  from assms(1) have "lower_char c \<in> lower_char ` set p" by (rule imageI)
  then show ?thesis using assms(2) by (simp add: toLowerCase_ascii_def)
qed

lemma separator_unmatched:
  assumes "CHR ''/'' \<in> set p \<or> CHR 0x5C \<in> set p"
  shows "toLowerCase_ascii p \<notin> set audioExtensions \<union> set videoExtensions"
proof -
  have "lower_char CHR ''/'' = CHR ''/''" "lower_char CHR 0x5C = CHR 0x5C"
    by (simp_all add: lower_char_def)
  with assms have
    "CHR ''/'' \<in> set (toLowerCase_ascii p) \<or> CHR 0x5C \<in> set (toLowerCase_ascii p)"
    using toLowerCase_ascii_keeps by blast
  moreover have "\<forall>e\<in>set audioExtensions \<union> set videoExtensions.
      CHR ''/'' \<notin> set e \<and> CHR 0x5C \<notin> set e"
    by (simp add: audioExtensions_def videoExtensions_def)
  ultimately show ?thesis by blast
qed

text \<open>
  Claim C9, as amended. What \<open>showMediaIcon\<close> does depends on the path only through the
  text after its last dot, lowercased by the platform, which is the whole path when it has
  no dot. The two lists of extensions are disjoint. A text in the audio list gives the
  audio presentation (audio icon shown, canvas hidden, controls shown), one in the video
  list the video presentation (canvas shown, controls shown), any other text, the empty
  one too, the audio presentation. A path without dot is classified by its whole text; if
  it is ASCII and contains a directory separator it gets the audio presentation. A path
  ending in \<open>.flac\<close> gets the audio presentation, one ending in \<open>.mkv\<close> the video
  presentation. Of \<open>toLowerCase\<close> only its action on ASCII text is used, and only for the
  last two sentences.
\<close>

theorem classification_by_last_segment:
  "(extension_of toLowerCase p = extension_of toLowerCase q \<longrightarrow>
      showMediaIcon toLowerCase p s = showMediaIcon toLowerCase q s) \<and>
   set audioExtensions \<inter> set videoExtensions = {} \<and>
   (extension_of toLowerCase p \<in> set audioExtensions \<longrightarrow>
      audio_presentation s (showMediaIcon toLowerCase p s)) \<and>
   (extension_of toLowerCase p \<in> set videoExtensions \<longrightarrow>
      video_presentation s (showMediaIcon toLowerCase p s)) \<and>
   (extension_of toLowerCase p \<notin> set audioExtensions \<union> set videoExtensions \<longrightarrow>
      audio_presentation s (showMediaIcon toLowerCase p s)) \<and>
   (CHR ''.'' \<notin> set p \<longrightarrow> extension_of toLowerCase p = toLowerCase p) \<and>
   (lowers_ascii toLowerCase \<and> ascii_text p \<and> CHR ''.'' \<notin> set p \<and>
    (CHR ''/'' \<in> set p \<or> CHR 0x5C \<in> set p) \<longrightarrow>
      audio_presentation s (showMediaIcon toLowerCase p s)) \<and>
   (lowers_ascii toLowerCase \<longrightarrow>
      audio_presentation s (showMediaIcon toLowerCase (base @ ''.flac'') s) \<and>
      video_presentation s (showMediaIcon toLowerCase (base @ ''.mkv'') s))"
proof -
  have 1: "showMediaIcon toLowerCase p s = showMediaIcon toLowerCase q s"
    if "extension_of toLowerCase p = extension_of toLowerCase q"
    using that by (simp add: showMediaIcon_def)
  have 2: "audio_presentation s (showMediaIcon toLowerCase p s)"
    if "lowers_ascii toLowerCase \<and> ascii_text p \<and> CHR ''.'' \<notin> set p \<and>
        (CHR ''/'' \<in> set p \<or> CHR 0x5C \<in> set p)"
  proof -
    from that have "extension_of toLowerCase p = toLowerCase p"
      by (simp add: extension_dotless)
    moreover from that have "toLowerCase p = toLowerCase_ascii p"
      by (simp add: lowers_ascii_def)
    moreover from that have
      "toLowerCase_ascii p \<notin> set audioExtensions \<union> set videoExtensions"
      by (intro separator_unmatched) blast
    ultimately have "extension_of toLowerCase p \<notin> set videoExtensions" by simp
    then show ?thesis by (intro showMediaIcon_audio) blast
  qed
  have 3: "audio_presentation s (showMediaIcon toLowerCase (base @ ''.flac'') s)"
    if "lowers_ascii toLowerCase"
    by (rule showMediaIcon_audio) (simp add: extension_flac [OF that] audioExtensions_def)
  have 4: "video_presentation s (showMediaIcon toLowerCase (base @ ''.mkv'') s)"
    if "lowers_ascii toLowerCase"
    by (rule showMediaIcon_video) (simp add: extension_mkv [OF that] videoExtensions_def)
  show ?thesis
    using 1 2 3 4
    by (simp add: extensions_disjoint showMediaIcon_audio showMediaIcon_video extension_dotless)
qed

theorem classification_by_last_segment_witness:
  "extension_of toLowerCase_ascii ''/music/Song.FLAC'' = extension_of toLowerCase_ascii ''b.flac'' \<and>
   showMediaIcon toLowerCase_ascii ''/music/Song.FLAC'' full_page =
     showMediaIcon toLowerCase_ascii ''b.flac'' full_page \<and>
   extension_of toLowerCase_ascii ''/music/Song.FLAC'' \<in> set audioExtensions \<and>
   audio_presentation full_page (showMediaIcon toLowerCase_ascii ''/music/Song.FLAC'' full_page) \<and>
   extension_of toLowerCase_ascii ''/films/clip.webm'' \<in> set videoExtensions \<and>
   video_presentation full_page (showMediaIcon toLowerCase_ascii ''/films/clip.webm'' full_page) \<and>
   extension_of toLowerCase_ascii ''/notes/readme.txt''
     \<notin> set audioExtensions \<union> set videoExtensions \<and>
   audio_presentation full_page (showMediaIcon toLowerCase_ascii ''/notes/readme.txt'' full_page) \<and>
   lowers_ascii toLowerCase_ascii \<and> ascii_text ''/films/mkv'' \<and>
   CHR ''.'' \<notin> set ''/films/mkv'' \<and> CHR ''/'' \<in> set ''/films/mkv'' \<and>
   extension_of toLowerCase_ascii ''/films/mkv'' = toLowerCase_ascii ''/films/mkv'' \<and>
   audio_presentation full_page (showMediaIcon toLowerCase_ascii ''/films/mkv'' full_page) \<and>
   audio_presentation full_page (showMediaIcon toLowerCase_ascii ''/music/a.flac'' full_page) \<and>
   video_presentation full_page (showMediaIcon toLowerCase_ascii ''/films/b.mkv'' full_page)"
proof -
  have e1: "extension_of toLowerCase_ascii ''/music/Song.FLAC'' =
              extension_of toLowerCase_ascii ''b.flac''"
    and e2: "extension_of toLowerCase_ascii ''/music/Song.FLAC'' \<in> set audioExtensions"
    and e3: "extension_of toLowerCase_ascii ''/films/clip.webm'' \<in> set videoExtensions"
    and e4: "extension_of toLowerCase_ascii ''/notes/readme.txt''
               \<notin> set audioExtensions \<union> set videoExtensions"
    and e5: "CHR ''.'' \<notin> set ''/films/mkv''"
    and e6: "CHR ''/'' \<in> set ''/films/mkv''"
    and e7: "ascii_text ''/films/mkv''"
    by code_simp+
  have l: "lowers_ascii toLowerCase_ascii"
    by (simp add: lowers_ascii_def)
  have a: "showMediaIcon toLowerCase_ascii ''/music/Song.FLAC'' full_page =
             showMediaIcon toLowerCase_ascii ''b.flac'' full_page"
    and b: "audio_presentation full_page
              (showMediaIcon toLowerCase_ascii ''/music/Song.FLAC'' full_page)"
    using classification_by_last_segment
            [of toLowerCase_ascii "''/music/Song.FLAC''" "''b.flac''" full_page "[]"]
      e1 e2 by blast+
  have c: "video_presentation full_page
             (showMediaIcon toLowerCase_ascii ''/films/clip.webm'' full_page)"
    using classification_by_last_segment
            [of toLowerCase_ascii "''/films/clip.webm''" "''b.flac''" full_page "[]"]
      e3 by blast
  have d: "audio_presentation full_page
             (showMediaIcon toLowerCase_ascii ''/notes/readme.txt'' full_page)"
    using classification_by_last_segment
            [of toLowerCase_ascii "''/notes/readme.txt''" "''b.flac''" full_page "[]"]
      e4 by blast
  have f: "extension_of toLowerCase_ascii ''/films/mkv'' = toLowerCase_ascii ''/films/mkv''"
    and g: "audio_presentation full_page
              (showMediaIcon toLowerCase_ascii ''/films/mkv'' full_page)"
    using classification_by_last_segment
            [of toLowerCase_ascii "''/films/mkv''" "''b.flac''" full_page "[]"]
      e5 e6 e7 l by blast+
  have h: "audio_presentation full_page
             (showMediaIcon toLowerCase_ascii (''/music/a'' @ ''.flac'') full_page)"
    and i: "video_presentation full_page
              (showMediaIcon toLowerCase_ascii (''/films/b'' @ ''.mkv'') full_page)"
    using classification_by_last_segment
            [of toLowerCase_ascii "''/films/mkv''" "''b.flac''" full_page "''/music/a''"]
      classification_by_last_segment
            [of toLowerCase_ascii "''/films/mkv''" "''b.flac''" full_page "''/films/b''"]
      l by blast+
  from h i have h': "audio_presentation full_page
             (showMediaIcon toLowerCase_ascii ''/music/a.flac'' full_page)"
    and i': "video_presentation full_page
              (showMediaIcon toLowerCase_ascii ''/films/b.mkv'' full_page)"
    by simp_all
  show ?thesis
    using e1 e2 e3 e4 e5 e6 e7 l a b c d f g h' i' by blast
qed

text \<open>
  The claim as written sends every path without extension to the audio presentation. The
  path \<open>mkv\<close> has no dot, and gets the video presentation.
\<close>

theorem missing_extension_counterexample:
  "ascii_text ''mkv'' \<and> CHR ''.'' \<notin> set ''mkv'' \<and>
   audio_icon (showMediaIcon toLowerCase_ascii ''mkv'' full_page) = Some ''none'' \<and>
   video_icon (showMediaIcon toLowerCase_ascii ''mkv'' full_page) = Some ''block'' \<and>
   map_option display (video_canvas (showMediaIcon toLowerCase_ascii ''mkv'' full_page)) =
     Some ''block''"
proof -
  have "extension_of toLowerCase_ascii ''mkv'' \<in> set videoExtensions"
    by code_simp
  then have "video_presentation full_page (showMediaIcon toLowerCase_ascii ''mkv'' full_page)"
    by (rule showMediaIcon_video)
  moreover have "audio_icon full_page = Some ''none''" "video_icon full_page = Some ''none''"
    "map_option (\<lambda>_. ''block'') (video_canvas full_page) = Some ''block''"
    "ascii_text ''mkv''"
    by code_simp+
  ultimately show ?thesis
    by (simp add: video_presentation_def set_display_def)
qed

end
